theory Spec2Isabelle
  imports Main "HOL-Library.Sublist" "HOL-Library.Word"
begin

chapter \<open>The model\<close>

section \<open>Go strings and the standard-library calls the code makes\<close>

text \<open>
  A Go string is a sequence of bytes, modelled as \<^typ>\<open>string\<close> (a list of 8-bit
  characters). The functions of package \<^verbatim>\<open>strings\<close> are written out on bytes.
  Where Go leaves the ASCII fast path (a byte \<open>\<ge> 0x80\<close> is met) it calls the Unicode
  tables; those calls are the fields of \<open>unicode_lib\<close>, a parameter of every function
  that can reach them, so that nothing is assumed about them.
\<close>

abbreviation bslash :: char where "bslash \<equiv> CHR 0x5C"

abbreviation newline :: char where "newline \<equiv> CHR 0x0A"

record unicode_lib =
  TrimFunc_IsSpace :: "string \<Rightarrow> string"
  TrimRightFunc_IsSpace :: "string \<Rightarrow> string"
  Map_ToLower :: "string \<Rightarrow> string"

definition ascii_byte :: "char \<Rightarrow> bool" where
  "ascii_byte c = ((of_char c :: nat) < 128)"

definition is_ascii :: "string \<Rightarrow> bool" where
  "is_ascii s = list_all ascii_byte s"

definition asciiSpace :: "char \<Rightarrow> bool" where
  "asciiSpace c = (c = CHR 0x09 \<or> c = CHR 0x0A \<or> c = CHR 0x0B \<or> c = CHR 0x0C
                   \<or> c = CHR 0x0D \<or> c = CHR 0x20)"

definition isUpperASCII :: "char \<Rightarrow> bool" where
  "isUpperASCII c = (65 \<le> (of_char c :: nat) \<and> (of_char c :: nat) \<le> 90)"

definition isLowerASCII :: "char \<Rightarrow> bool" where
  "isLowerASCII c = (97 \<le> (of_char c :: nat) \<and> (of_char c :: nat) \<le> 122)"

definition lowerASCII :: "char \<Rightarrow> char" where
  "lowerASCII c = (if isUpperASCII c then char_of ((of_char c :: nat) + 32) else c)"

definition upperASCII :: "char \<Rightarrow> char" where
  "upperASCII c = (if isLowerASCII c then char_of ((of_char c :: nat) - 32) else c)"

text \<open>\<^verbatim>\<open>strings.ToLower\<close>: ASCII-only strings are lowered byte by byte; any other
  string goes through \<^verbatim>\<open>strings.Map(unicode.ToLower, s)\<close>.\<close>

definition ToLower :: "unicode_lib \<Rightarrow> string \<Rightarrow> string" where
  "ToLower U s = (if is_ascii s then map lowerASCII s else Map_ToLower U s)"

text \<open>\<^verbatim>\<open>strings.TrimSpace\<close>: ASCII white space is cut from the left, then from the
  right; the first byte \<open>\<ge> 0x80\<close> met on either side hands the rest to the Unicode
  trimming functions.\<close>

definition TrimSpace :: "unicode_lib \<Rightarrow> string \<Rightarrow> string" where
  "TrimSpace U s =
     (let s1 = dropWhile asciiSpace s in
      case s1 of
        [] \<Rightarrow> []
      | c # _ \<Rightarrow>
          if \<not> ascii_byte c then TrimFunc_IsSpace U s1
          else (let r = dropWhile asciiSpace (rev s1) in
                case r of
                  [] \<Rightarrow> []
                | d # _ \<Rightarrow> if \<not> ascii_byte d then TrimRightFunc_IsSpace U (rev r) else rev r))"

definition HasPrefix :: "string \<Rightarrow> string \<Rightarrow> bool" where
  "HasPrefix s p = prefix p s"

definition HasSuffix :: "string \<Rightarrow> string \<Rightarrow> bool" where
  "HasSuffix s x = (length x \<le> length s \<and> drop (length s - length x) s = x)"

definition TrimPrefix :: "string \<Rightarrow> string \<Rightarrow> string" where
  "TrimPrefix s p = (if HasPrefix s p then drop (length p) s else s)"

definition TrimSuffix :: "string \<Rightarrow> string \<Rightarrow> string" where
  "TrimSuffix s x = (if HasSuffix s x then take (length s - length x) s else s)"

text \<open>\<^verbatim>\<open>strings.Contains(s, substr)\<close>.\<close>

definition Contains :: "string \<Rightarrow> string \<Rightarrow> bool" where
  "Contains s substr = sublist substr s"

text \<open>\<^verbatim>\<open>strings.ReplaceAll(s, old, new)\<close> for a non-empty \<open>old\<close> (every call site
  passes a literal of one or two bytes): the non-overlapping occurrences of \<open>old\<close> are
  replaced from left to right. The counter is the number of bytes of a matched
  occurrence still to be skipped.\<close>

fun replace_from :: "string \<Rightarrow> string \<Rightarrow> nat \<Rightarrow> string \<Rightarrow> string" where
  "replace_from old new k [] = []"
| "replace_from old new (Suc k) (c # cs) = replace_from old new k cs"
| "replace_from old new 0 (c # cs) =
     (if prefix old (c # cs) then new @ replace_from old new (length old - 1) cs
      else c # replace_from old new 0 cs)"

definition ReplaceAll :: "string \<Rightarrow> string \<Rightarrow> string \<Rightarrow> string" where
  "ReplaceAll s old new = replace_from old new 0 s"

text \<open>\<^verbatim>\<open>strings.Split(s, sep)\<close> and \<^verbatim>\<open>strings.Join(elems, sep)\<close> for a separator
  of one byte (\<^verbatim>\<open>"."\<close> and \<^verbatim>\<open>"\n"\<close> in the code). \<open>Split\<close> of the empty string is
  the list holding one empty string, as in Go.\<close>

fun Split :: "string \<Rightarrow> char \<Rightarrow> string list" where
  "Split [] sep = [[]]"
| "Split (c # cs) sep =
     (if c = sep then [] # Split cs sep
      else (case Split cs sep of p # ps \<Rightarrow> (c # p) # ps | [] \<Rightarrow> [[c]]))"

fun Join :: "string list \<Rightarrow> char \<Rightarrow> string" where
  "Join [] sep = []"
| "Join [x] sep = x"
| "Join (x # y # ys) sep = x @ sep # Join (y # ys) sep"

subsection \<open>The four regular expressions of extractSuffix\<close>

text \<open>
  \<^verbatim>\<open>extractSuffix\<close> deletes the matches of \<^verbatim>\<open>\[.*?\]\<close>, \<^verbatim>\<open>\(.*?\)\+\<close>,
  \<^verbatim>\<open>\(.*?\)\*\<close> and \<^verbatim>\<open>\(.*?\)\?\<close>. Each is an opening byte, a lazy \<^verbatim>\<open>.*?\<close>
  (any bytes but a newline, as few as possible) and a closing literal.
  \<open>lazy_len close s\<close> is the length of the shortest match of \<^verbatim>\<open>.*?\<close> followed by
  \<open>close\<close> at the start of \<open>s\<close>; \<open>remove_lazy\<close> is
  \<^verbatim>\<open>ReplaceAllString(s, "")\<close>: leftmost match first, the search resuming after it.
\<close>

fun lazy_len :: "string \<Rightarrow> string \<Rightarrow> nat option" where
  "lazy_len close [] = None"
| "lazy_len close (c # cs) =
     (if prefix close (c # cs) then Some (length close)
      else if c = newline then None
      else map_option Suc (lazy_len close cs))"

fun remove_lazy :: "char \<Rightarrow> string \<Rightarrow> nat \<Rightarrow> string \<Rightarrow> string" where
  "remove_lazy opn close k [] = []"
| "remove_lazy opn close (Suc k) (c # cs) = remove_lazy opn close k cs"
| "remove_lazy opn close 0 (c # cs) =
     (if c = opn then
        (case lazy_len close cs of
           Some n \<Rightarrow> remove_lazy opn close n cs
         | None \<Rightarrow> c # remove_lazy opn close 0 cs)
      else c # remove_lazy opn close 0 cs)"

section \<open>The resolver manager: suffix extraction\<close>

text \<open>\<^verbatim>\<open>Manager.extractSuffix\<close>, statement by statement.\<close>

definition extractSuffix :: "unicode_lib \<Rightarrow> string \<Rightarrow> string" where
  "extractSuffix U pattern0 =
     (let pattern = TrimSuffix pattern0 ''.'';
          pattern = TrimPrefix pattern ''^'';
          pattern = TrimSuffix pattern ''$'';
          pattern = ReplaceAll pattern [bslash, CHR ''.''] ''.'';
          pattern = remove_lazy (CHR ''['') '']'' 0 pattern;
          pattern = remove_lazy (CHR ''('') '')+'' 0 pattern;
          pattern = remove_lazy (CHR ''('') '')*'' 0 pattern;
          pattern = remove_lazy (CHR ''('') '')?'' 0 pattern;
          pattern = ReplaceAll pattern ''+'' '''';
          pattern = ReplaceAll pattern ''*'' '''';
          pattern = ReplaceAll pattern ''?'' '''';
          pattern = ReplaceAll pattern ''('' '''';
          pattern = ReplaceAll pattern '')'' '''';
          pattern = ReplaceAll pattern ''|'' '''';
          parts = Split pattern (CHR ''.'');
          cleanParts = filter (\<lambda>part. part \<noteq> '''') (map (TrimSpace U) parts)
      in if length cleanParts = 0 then ''''
         else if length cleanParts \<ge> 1 then last cleanParts
         else '''')"

section \<open>Records and the matcher\<close>

text \<open>\<^verbatim>\<open>reghost.Record\<close>: a domain pattern and the IP it resolves to. (The fields are
  \<^verbatim>\<open>Domain\<close> and \<^verbatim>\<open>IP\<close> in the source.)\<close>

record Record =
  rDomain :: string
  rIP :: string

text \<open>Package \<^verbatim>\<open>regexp\<close> is a parameter: \<open>Compile\<close> returns \<open>None\<close> where
  \<^verbatim>\<open>regexp.Compile\<close> returns an error, \<open>MatchString re s\<close> is \<^verbatim>\<open>re.MatchString(s)\<close>.\<close>

record 're regexp_lib =
  Compile :: "string \<Rightarrow> 're option"
  MatchString :: "'re \<Rightarrow> string \<Rightarrow> bool"

text \<open>\<^verbatim>\<open>Matcher\<close>: the record slice and the cache of compiled patterns, keyed by the
  pattern text. The mutex is not modelled: calls are taken one at a time.\<close>

record 're Matcher =
  records :: "Record list"
  regexCache :: "string \<rightharpoonup> 're"

text \<open>The loop of \<^verbatim>\<open>compilePatterns\<close> over the records, threading the cache.\<close>

fun compile_loop :: "'re regexp_lib \<Rightarrow> Record list \<Rightarrow> (string \<rightharpoonup> 're) \<Rightarrow> (string \<rightharpoonup> 're)" where
  "compile_loop R [] cache = cache"
| "compile_loop R (record # rest) cache =
     compile_loop R rest
       (if HasPrefix (rDomain record) ''^'' then
          (case Compile R (rDomain record) of
             Some re \<Rightarrow> cache(rDomain record \<mapsto> re)
           | None \<Rightarrow> cache)
        else cache)"

definition compilePatterns :: "'re regexp_lib \<Rightarrow> 're Matcher \<Rightarrow> 're Matcher" where
  "compilePatterns R m = m\<lparr>regexCache := compile_loop R (records m) (regexCache m)\<rparr>"

definition NewMatcher :: "'re regexp_lib \<Rightarrow> Record list \<Rightarrow> 're Matcher" where
  "NewMatcher R recs = compilePatterns R \<lparr>records = recs, regexCache = Map.empty\<rparr>"

definition Update :: "'re regexp_lib \<Rightarrow> 're Matcher \<Rightarrow> Record list \<Rightarrow> 're Matcher" where
  "Update R m recs = compilePatterns R (m\<lparr>records := recs, regexCache := Map.empty\<rparr>)"

text \<open>The two statements \<^verbatim>\<open>Match\<close> applies to the query and to every record's
  domain: lower-case, then a trailing dot unless there is one.\<close>

definition fqdn_lower :: "unicode_lib \<Rightarrow> string \<Rightarrow> string" where
  "fqdn_lower U name =
     (let domain = ToLower U name
      in if \<not> HasSuffix domain ''.'' then domain @ ''.'' else domain)"

text \<open>The loop of \<^verbatim>\<open>Match\<close> over the records; \<open>domain\<close> is the normalised query.\<close>

fun match_loop :: "'re regexp_lib \<Rightarrow> unicode_lib \<Rightarrow> (string \<rightharpoonup> 're) \<Rightarrow> string \<Rightarrow> Record list
                    \<Rightarrow> string \<times> bool" where
  "match_loop R U cache domain [] = ('''', False)"
| "match_loop R U cache domain (record # rest) =
     (let recordDomain = fqdn_lower U (rDomain record)
      in if recordDomain = domain then (rIP record, True)
         else (case cache (rDomain record) of
                 Some re \<Rightarrow>
                   if MatchString R re domain then (rIP record, True)
                   else match_loop R U cache domain rest
               | None \<Rightarrow> match_loop R U cache domain rest))"

definition Match :: "'re regexp_lib \<Rightarrow> unicode_lib \<Rightarrow> 're Matcher \<Rightarrow> string \<Rightarrow> string \<times> bool" where
  "Match R U m name = match_loop R U (regexCache m) (fqdn_lower U name) (records m)"

text \<open>\<^verbatim>\<open>Resolver.Resolve\<close> and \<^verbatim>\<open>Cache.Lookup\<close> pass the call on to \<^verbatim>\<open>Match\<close>.\<close>

definition Resolve :: "'re regexp_lib \<Rightarrow> unicode_lib \<Rightarrow> 're Matcher \<Rightarrow> string \<Rightarrow> string \<times> bool" where
  "Resolve R U m name = Match R U m name"

definition Lookup :: "'re regexp_lib \<Rightarrow> unicode_lib \<Rightarrow> 're Matcher \<Rightarrow> string \<Rightarrow> string \<times> bool" where
  "Lookup R U m name = Resolve R U m name"

subsection \<open>Library instances for running the model\<close>

text \<open>
  \<open>ascii_lib\<close> stands for the Unicode tables on inputs that never reach them (ASCII-only
  strings). \<open>anchored_lib\<close> is a regular-expression engine for the patterns
  \<^verbatim>\<open>^body$\<close> whose body is made of letters, digits, \<^verbatim>\<open>-\<close>, the wildcard \<^verbatim>\<open>.\<close> (any
  byte but a newline) and the escape \<^verbatim>\<open>\.\<close>; it refuses every other pattern.
\<close>

definition ascii_lib :: unicode_lib where
  "ascii_lib = \<lparr>TrimFunc_IsSpace = (\<lambda>s. s), TrimRightFunc_IsSpace = (\<lambda>s. s), Map_ToLower = (\<lambda>s. s)\<rparr>"

definition plain_byte :: "char \<Rightarrow> bool" where
  "plain_byte c = (isUpperASCII c \<or> isLowerASCII c
                   \<or> (48 \<le> (of_char c :: nat) \<and> (of_char c :: nat) \<le> 57) \<or> c = CHR ''-'')"

fun anchored_body :: "string \<Rightarrow> bool" where
  "anchored_body [] = True"
| "anchored_body [p] = (plain_byte p \<or> p = CHR ''.'')"
| "anchored_body (p # q # qs) =
     (if p = bslash then q = CHR ''.'' \<and> anchored_body qs
      else (plain_byte p \<or> p = CHR ''.'') \<and> anchored_body (q # qs))"

fun anchored_match :: "string \<Rightarrow> string \<Rightarrow> bool" where
  "anchored_match [] s = (s = [])"
| "anchored_match (p # ps) [] = False"
| "anchored_match [p] (c # cs) = (p \<noteq> bslash \<and> (p = CHR ''.'' \<and> c \<noteq> newline \<or> p = c) \<and> cs = [])"
| "anchored_match (p # q # qs) (c # cs) =
     (if p = bslash then q = c \<and> anchored_match qs cs
      else (p = CHR ''.'' \<and> c \<noteq> newline \<or> p = c) \<and> anchored_match (q # qs) cs)"

definition anchored_Compile :: "string \<Rightarrow> string option" where
  "anchored_Compile p =
     (if HasPrefix p ''^'' \<and> HasSuffix p ''$'' \<and> 2 \<le> length p
         \<and> anchored_body (take (length p - 2) (drop 1 p))
      then Some (take (length p - 2) (drop 1 p)) else None)"

definition anchored_lib :: "string regexp_lib" where
  "anchored_lib = \<lparr>Compile = anchored_Compile, MatchString = anchored_match\<rparr>"

subsection \<open>The match of one record\<close>

text \<open>A record matches a normalised query when its normalised domain is the query, or
  its pattern has a compiled form in the cache and that form matches the query: the two
  tests of the body of the loop.\<close>

definition record_matches :: "'re regexp_lib \<Rightarrow> unicode_lib \<Rightarrow> (string \<rightharpoonup> 're) \<Rightarrow> string \<Rightarrow> Record \<Rightarrow> bool" where
  "record_matches R U cache domain record =
     (fqdn_lower U (rDomain record) = domain
      \<or> (case cache (rDomain record) of Some re \<Rightarrow> MatchString R re domain | None \<Rightarrow> False))"

subsection \<open>Example record lists\<close>

definition literal_then_regex :: "Record list" where
  "literal_then_regex =
     [\<lparr>rDomain = ''myhost'', rIP = ''10.0.0.1''\<rparr>,
      \<lparr>rDomain = ''^myhost'' @ [bslash] @ ''.$'', rIP = ''10.0.0.2''\<rparr>]"

definition regex_then_literal :: "Record list" where
  "regex_then_literal =
     [\<lparr>rDomain = ''^myhost'' @ [bslash] @ ''.$'', rIP = ''10.0.0.2''\<rparr>,
      \<lparr>rDomain = ''myhost'', rIP = ''10.0.0.1''\<rparr>]"

definition old_records :: "Record list" where
  "old_records =
     [\<lparr>rDomain = ''old.test'', rIP = ''1.1.1.1''\<rparr>,
      \<lparr>rDomain = ''^old'' @ [bslash] @ ''.$'', rIP = ''1.1.1.2''\<rparr>]"

definition new_records :: "Record list" where
  "new_records =
     [\<lparr>rDomain = ''new.test'', rIP = ''2.2.2.2''\<rparr>,
      \<lparr>rDomain = ''^new'' @ [bslash] @ ''.$'', rIP = ''2.2.2.3''\<rparr>]"

section \<open>The DNS handler\<close>

text \<open>
  The messages of \<^verbatim>\<open>github.com/miekg/dns\<close>, with the fields the handler reads or writes:
  a question, an address resource record (\<^verbatim>\<open>dns.A\<close> with its \<^verbatim>\<open>RR_Header\<close>) and the
  message (the header flags other than \<^verbatim>\<open>Response\<close> are left out). \<^verbatim>\<open>net.ParseIP\<close> is a
  parameter, \<open>parseIP\<close>.
\<close>

record Question =
  Name :: string
  Qtype :: "16 word"
  Qclass :: "16 word"

record 'ip A_RR =
  Hdr_Name :: string
  Hdr_Rrtype :: "16 word"
  Hdr_Class :: "16 word"
  Hdr_Ttl :: "32 word"
  A :: 'ip

record 'ip Msg =
  Id :: "16 word"
  Response :: bool
  Opcode :: int
  Rcode :: int
  Question :: "Question list"
  Answer :: "'ip A_RR list"

definition TypeA :: "16 word" where "TypeA = 1"

definition TypeAAAA :: "16 word" where "TypeAAAA = 28"

definition ClassINET :: "16 word" where "ClassINET = 1"

definition RcodeSuccess :: int where "RcodeSuccess = 0"

definition RcodeNameError :: int where "RcodeNameError = 3"

text \<open>\<^verbatim>\<open>new(dns.Msg)\<close>, \<^verbatim>\<open>Msg.SetReply\<close> and \<^verbatim>\<open>Msg.SetRcode\<close> of the library:
  \<^verbatim>\<open>SetReply\<close> copies the id, the opcode and the first question, marks the message a
  response and sets the code to success; \<^verbatim>\<open>SetRcode\<close> is \<^verbatim>\<open>SetReply\<close> followed by the
  assignment of the code. Neither touches the answer section.\<close>

definition new_Msg :: "'ip Msg" where
  "new_Msg = \<lparr>Id = 0, Response = False, Opcode = 0, Rcode = 0, Question = [], Answer = []\<rparr>"

definition SetReply :: "'ip Msg \<Rightarrow> 'ip Msg \<Rightarrow> 'ip Msg" where
  "SetReply m request =
     m\<lparr>Id := Id request, Response := True, Opcode := Opcode request, Rcode := RcodeSuccess,
       Question := (if length (Question request) > 0 then [hd (Question request)] else Question m)\<rparr>"

definition SetRcode :: "'ip Msg \<Rightarrow> 'ip Msg \<Rightarrow> int \<Rightarrow> 'ip Msg" where
  "SetRcode m request rcode = (SetReply m request)\<lparr>Rcode := rcode\<rparr>"

text \<open>The body of the loop of \<^verbatim>\<open>Handler.ServeDNS\<close> for one question: \<open>c\<close> is the
  matcher behind the cache, \<open>r\<close> the request, \<open>m\<close> the reply built so far. The log
  lines are not modelled.\<close>

definition serve_question ::
  "'re regexp_lib \<Rightarrow> unicode_lib \<Rightarrow> (string \<Rightarrow> 'ip) \<Rightarrow> 're Matcher \<Rightarrow> 'ip Msg \<Rightarrow> 'ip Msg \<Rightarrow> Question
     \<Rightarrow> 'ip Msg" where
  "serve_question R U parseIP c r m q =
     (let qname = ToLower U (Name q)
      in if Qtype q \<noteq> TypeA then m
         else (case Lookup R U c qname of
                 (ip, found) \<Rightarrow>
                   if found then
                     m\<lparr>Answer := Answer m @
                         [\<lparr>Hdr_Name = Name q, Hdr_Rrtype = TypeA, Hdr_Class = ClassINET,
                           Hdr_Ttl = 300, A = parseIP ip\<rparr>]\<rparr>
                   else SetRcode m r RcodeNameError))"

fun serve_questions ::
  "'re regexp_lib \<Rightarrow> unicode_lib \<Rightarrow> (string \<Rightarrow> 'ip) \<Rightarrow> 're Matcher \<Rightarrow> 'ip Msg \<Rightarrow> 'ip Msg \<Rightarrow> Question list
     \<Rightarrow> 'ip Msg" where
  "serve_questions R U parseIP c r m [] = m"
| "serve_questions R U parseIP c r m (q # qs) =
     serve_questions R U parseIP c r (serve_question R U parseIP c r m q) qs"

text \<open>\<^verbatim>\<open>ServeDNS\<close>: the value is the message handed to \<^verbatim>\<open>w.WriteMsg\<close>.\<close>

definition ServeDNS ::
  "'re regexp_lib \<Rightarrow> unicode_lib \<Rightarrow> (string \<Rightarrow> 'ip) \<Rightarrow> 're Matcher \<Rightarrow> 'ip Msg \<Rightarrow> 'ip Msg" where
  "ServeDNS R U parseIP c r = serve_questions R U parseIP c r (SetReply new_Msg r) (Question r)"

text \<open>A query with one question, for running the handler.\<close>

definition query_for :: "string \<Rightarrow> 16 word \<Rightarrow> string Msg" where
  "query_for name qtype =
     \<lparr>Id = 7, Response = False, Opcode = 0, Rcode = 0,
      Question = [\<lparr>Name = name, Qtype = qtype, Qclass = ClassINET\<rparr>], Answer = []\<rparr>"

text \<open>A query with three questions: an address question whose name has a record, a
  question of another type, and an address question whose name has none.\<close>

definition mixed_query :: "string Msg" where
  "mixed_query =
     \<lparr>Id = 9, Response = False, Opcode = 0, Rcode = 0,
      Question = [\<lparr>Name = ''MyHost.'', Qtype = TypeA, Qclass = ClassINET\<rparr>,
                  \<lparr>Name = ''myhost.'', Qtype = TypeAAAA, Qclass = ClassINET\<rparr>,
                  \<lparr>Name = ''other.'', Qtype = TypeA, Qclass = ClassINET\<rparr>],
      Answer = []\<rparr>"

section \<open>The server: the shared resolver file on Linux\<close>

text \<open>Errors of the server and of the resolver manager, one constructor for each
  command or call that can fail.\<close>

datatype error =
    ReadFailed string
  | WriteFailed string
  | RemoveFailed string
  | MkdirFailed string
  | CommandFailed string
  | UnsupportedOS
  | NoLoopbackIP nat

text \<open>The fields of \<^verbatim>\<open>Server\<close> that the resolver configuration uses.
  \<open>originalResolvConf\<close> is \<open>None\<close> for the nil slice.\<close>

record Server =
  bindIP :: string
  resolverConfigured :: bool
  originalResolvConf :: "string option"

text \<open>
  What the two commands run on \<^verbatim>\<open>/etc/resolv.conf\<close> see and do: \<open>resolv_conf\<close> is the
  content \<^verbatim>\<open>cat\<close> prints, \<open>None\<close> when \<^verbatim>\<open>cat\<close> fails; \<^verbatim>\<open>tee\<close> either fails and leaves the
  file as it is (\<open>tee_fails\<close>), or replaces the content.
\<close>

record resolv_os =
  resolv_conf :: "string option"
  tee_fails :: bool

definition resolvConfFile :: string where
  "resolvConfFile = ''/etc/resolv.conf''"

text \<open>The loop over the lines that looks for the managed entry, in both functions.\<close>

fun line_present :: "unicode_lib \<Rightarrow> string \<Rightarrow> string list \<Rightarrow> bool" where
  "line_present U nameserverEntry [] = False"
| "line_present U nameserverEntry (line # rest) =
     (if TrimSpace U line = nameserverEntry then True
      else line_present U nameserverEntry rest)"

text \<open>\<^verbatim>\<open>Server.configureLinuxResolver\<close>: the error, the server and the file afterwards.\<close>

definition configureLinuxResolver ::
  "unicode_lib \<Rightarrow> Server \<Rightarrow> resolv_os \<Rightarrow> error option \<times> Server \<times> resolv_os" where
  "configureLinuxResolver U s os =
     (case resolv_conf os of
        None \<Rightarrow> (Some (ReadFailed resolvConfFile), s, os)
      | Some content \<Rightarrow>
          (let s1 = s\<lparr>originalResolvConf := Some content\<rparr>;
               lines = Split content newline;
               nameserverEntry = ''nameserver '' @ bindIP s1
           in if line_present U nameserverEntry lines
              then (None, s1\<lparr>resolverConfigured := True\<rparr>, os)
              else (let newLines = [nameserverEntry] @ lines;
                        newContent = Join newLines newline
                    in if tee_fails os then (Some (WriteFailed resolvConfFile), s1, os)
                       else (None, s1\<lparr>resolverConfigured := True\<rparr>,
                             os\<lparr>resolv_conf := Some newContent\<rparr>))))"

text \<open>\<^verbatim>\<open>Server.checkAndRestoreLinuxResolver\<close>: it returns nothing and changes no field of
  the server; the value is the file afterwards.\<close>

definition checkAndRestoreLinuxResolver :: "unicode_lib \<Rightarrow> Server \<Rightarrow> resolv_os \<Rightarrow> resolv_os" where
  "checkAndRestoreLinuxResolver U s os =
     (case resolv_conf os of
        None \<Rightarrow> os
      | Some content \<Rightarrow>
          (let nameserverEntry = ''nameserver '' @ bindIP s;
               lines = Split content newline;
               found = line_present U nameserverEntry lines
           in if \<not> found
              then (let newLines = [nameserverEntry] @ lines;
                        newContent = Join newLines newline
                    in if tee_fails os then os else os\<lparr>resolv_conf := Some newContent\<rparr>)
              else os))"

subsection \<open>Example files\<close>

text \<open>Two states of the shared file, one with the managed line in second place and one
  without it, and a server bound to \<^verbatim>\<open>127.1.2.3\<close>.\<close>

definition displaced_conf :: resolv_os where
  "displaced_conf =
     \<lparr>resolv_conf = Some (''nameserver 8.8.8.8'' @ [newline] @ ''nameserver 127.1.2.3'' @ [newline]),
      tee_fails = False\<rparr>"

definition missing_conf :: resolv_os where
  "missing_conf =
     \<lparr>resolv_conf = Some (''search lan'' @ [newline] @ ''nameserver 8.8.8.8'' @ [newline]),
      tee_fails = False\<rparr>"

definition running_server :: Server where
  "running_server = \<lparr>bindIP = ''127.1.2.3'', resolverConfigured = True, originalResolvConf = None\<rparr>"

section \<open>The server: allocation of the loopback IP\<close>

text \<open>
  \<^verbatim>\<open>runtime.GOOS\<close>, and what the loop of \<^verbatim>\<open>bindLoopbackIP\<close> meets: \<open>draw k\<close> is the value
  of the \<open>k\<close>-th call of \<^verbatim>\<open>rand.Intn(256)\<close> (three calls an attempt), in \<open>[0, 256)\<close> by its
  type; \<open>probe_output i\<close> is what the probe command of \<^verbatim>\<open>isIPInUse\<close> prints at attempt
  \<open>i\<close>, \<open>None\<close> when it fails; \<open>alias_fails i\<close> says whether the command adding the alias
  fails at attempt \<open>i\<close>.
\<close>

datatype GOOS = darwin | linux | other_os

record loopback_env =
  goos :: GOOS
  draw :: "nat \<Rightarrow> 8 word"
  probe_output :: "nat \<Rightarrow> string option"
  alias_fails :: "nat \<Rightarrow> bool"

text \<open>The verb \<^verbatim>\<open>%d\<close> of \<^verbatim>\<open>fmt.Sprintf\<close> on a number that is not negative.\<close>

fun itoa :: "nat \<Rightarrow> string" where
  "itoa n = (if n < 10 then [char_of (48 + n)] else itoa (n div 10) @ [char_of (48 + n mod 10)])"

declare itoa.simps [simp del]

definition candidate :: "loopback_env \<Rightarrow> nat \<Rightarrow> string" where
  "candidate E i =
     ''127.'' @ itoa (unat (draw E (3 * i))) @ ''.'' @ itoa (unat (draw E (3 * i + 1)))
       @ ''.'' @ itoa (unat (draw E (3 * i + 2)))"

definition isIPInUse :: "GOOS \<Rightarrow> string option \<Rightarrow> string \<Rightarrow> bool" where
  "isIPInUse g out ip =
     (case g of
        darwin \<Rightarrow> (case out of None \<Rightarrow> False | Some output \<Rightarrow> Contains output ip)
      | linux \<Rightarrow> (case out of None \<Rightarrow> False | Some output \<Rightarrow> Contains output ip)
      | other_os \<Rightarrow> False)"

definition addLoopbackAlias :: "GOOS \<Rightarrow> bool \<Rightarrow> string \<Rightarrow> error option" where
  "addLoopbackAlias g fails ip =
     (case g of
        darwin \<Rightarrow> if fails then Some (CommandFailed ''ifconfig'') else None
      | linux \<Rightarrow> if fails then Some (CommandFailed ''ip addr add'') else None
      | other_os \<Rightarrow> Some UnsupportedOS)"

text \<open>The loop \<^verbatim>\<open>for i := 0; i < maxAttempts; i++\<close>, from attempt \<open>i\<close> on.\<close>

function bind_loop :: "loopback_env \<Rightarrow> nat \<Rightarrow> nat \<Rightarrow> error + string" where
  "bind_loop E maxAttempts i =
     (if i < maxAttempts then
        (let ip = candidate E i
         in if ip = ''127.0.0.1'' then bind_loop E maxAttempts (Suc i)
            else if isIPInUse (goos E) (probe_output E i) ip then bind_loop E maxAttempts (Suc i)
            else (case addLoopbackAlias (goos E) (alias_fails E i) ip of
                    Some err \<Rightarrow> bind_loop E maxAttempts (Suc i)
                  | None \<Rightarrow> Inr ip))
      else Inl (NoLoopbackIP maxAttempts))"
  by pat_completeness auto
termination
  by (relation "measure (\<lambda>(E, maxAttempts, i). maxAttempts - i)") auto

declare bind_loop.simps [simp del]

definition bindLoopbackIP :: "loopback_env \<Rightarrow> error + string" where
  "bindLoopbackIP E = bind_loop E 100 0"

text \<open>An environment on Linux whose first candidate is \<^verbatim>\<open>127.0.0.1\<close>, whose second is
  reported in use by the probe and whose third is free.\<close>

definition example_env :: loopback_env where
  "example_env =
     \<lparr>goos = linux,
      draw = (\<lambda>k. if k < 9 then [0, 0, 1, 0, 0, 2, 10, 20, 30] ! k else 0),
      probe_output = (\<lambda>i. Some (''inet 127.0.0.1/8 scope host lo'' @ [newline]
                                  @ ''inet 127.0.0.2/8 scope host lo'')),
      alias_fails = (\<lambda>i. False)\<rparr>"

section \<open>The resolver manager: reconciliation of the hint files\<close>

subsection \<open>Paths\<close>

text \<open>
  \<^verbatim>\<open>filepath.Join\<close> on Unix: the elements from the first non-empty one on are joined
  with \<^verbatim>\<open>/\<close> and the result is cleaned. \<^verbatim>\<open>Clean\<close> drops empty and \<^verbatim>\<open>.\<close> elements, lets a
  \<^verbatim>\<open>..\<close> element cancel the element before it (at the root it is dropped, at the start
  of a relative path it is kept) and leaves no trailing slash. \<open>clean_step\<close> works on
  the elements kept so far, last one first.
\<close>

definition clean_step :: "bool \<Rightarrow> string list \<Rightarrow> string \<Rightarrow> string list" where
  "clean_step rooted kept elem =
     (if elem = '''' \<or> elem = ''.'' then kept
      else if elem = ''..'' then
        (case kept of
           [] \<Rightarrow> if rooted then [] else [''..'']
         | e # es \<Rightarrow> if e = ''..'' then ''..'' # kept else es)
      else elem # kept)"

definition Clean :: "string \<Rightarrow> string" where
  "Clean path =
     (if path = '''' then ''.''
      else (let rooted = (hd path = CHR ''/'');
                kept = foldl (clean_step rooted) [] (Split path (CHR ''/''));
                out = Join (rev kept) (CHR ''/'')
            in if rooted then CHR ''/'' # out
               else if out = '''' then ''.'' else out))"

definition filepath_Join :: "string \<Rightarrow> string \<Rightarrow> string" where
  "filepath_Join a b =
     (if a \<noteq> '''' then Clean (a @ ''/'' @ b)
      else if b \<noteq> '''' then Clean b
      else '''')"

subsection \<open>State\<close>

text \<open>
  \<^verbatim>\<open>Manager\<close>. The map \<^verbatim>\<open>managedDomains\<close> only ever holds the value \<^verbatim>\<open>true\<close>, so it is
  the list of its keys; the order of the list stands for the order in which Go
  happens to range over the map, which no theorem below depends on. (The field
  \<^verbatim>\<open>bindIP\<close> is \<open>manager_bindIP\<close> here, the server has one of the same name.)
\<close>

record Manager =
  manager_bindIP :: string
  managedDomains :: "string list"
  resolverFilesDir :: string

definition macOSResolverDir :: string where
  "macOSResolverDir = ''/etc/resolver''"

definition NewManager :: "string \<Rightarrow> Manager" where
  "NewManager ip = \<lparr>manager_bindIP = ip, managedDomains = [], resolverFilesDir = macOSResolverDir\<rparr>"

text \<open>
  The operating system as the manager meets it: the files by path, whether the
  resolver directory exists, and the log of the effects that took place (a file
  written by \<^verbatim>\<open>tee\<close>, a successful \<^verbatim>\<open>rm -f\<close>, a directory made, the DNS cache flushed).
  Which commands fail is given by \<open>os_faults\<close>; a command that fails changes nothing.
  A file can be read exactly when it exists.
\<close>

datatype os_event = Wrote string string | Removed string | MadeDir string | Flushed

record resolver_os =
  files :: "string \<rightharpoonup> string"
  dir_exists :: bool
  events :: "os_event list"

record os_faults =
  tee_error :: "string \<Rightarrow> bool"
  rm_error :: "string \<Rightarrow> bool"
  mkdir_error :: bool

subsection \<open>The operations\<close>

text \<open>\<^verbatim>\<open>extractDomainSuffixes\<close>: the loop filling \<^verbatim>\<open>suffixMap\<close>, then its keys. The keys
  come in insertion order here; Go ranges over the map in an order of its own.\<close>

definition map_insert :: "string \<Rightarrow> string list \<Rightarrow> string list" where
  "map_insert k keys = (if k \<in> set keys then keys else keys @ [k])"

fun suffix_loop :: "unicode_lib \<Rightarrow> Record list \<Rightarrow> string list \<Rightarrow> string list" where
  "suffix_loop U [] suffixMap = suffixMap"
| "suffix_loop U (record # rest) suffixMap =
     (let domain = rDomain record
      in if domain = '''' then suffix_loop U rest suffixMap
         else (let suffix = extractSuffix U domain
               in if suffix \<noteq> '''' then suffix_loop U rest (map_insert suffix suffixMap)
                  else suffix_loop U rest suffixMap))"

definition extractDomainSuffixes :: "unicode_lib \<Rightarrow> Record list \<Rightarrow> string list" where
  "extractDomainSuffixes U recs = suffix_loop U recs []"

definition ensureResolverDir :: "os_faults \<Rightarrow> Manager \<Rightarrow> resolver_os \<Rightarrow> error option \<times> resolver_os" where
  "ensureResolverDir F m os =
     (if \<not> dir_exists os then
        (if mkdir_error F then (Some (MkdirFailed (resolverFilesDir m)), os)
         else (None, os\<lparr>dir_exists := True, events := events os @ [MadeDir (resolverFilesDir m)]\<rparr>))
      else (None, os))"

definition expectedContent :: "Manager \<Rightarrow> string" where
  "expectedContent m = ''nameserver '' @ manager_bindIP m @ [newline] @ ''port 53'' @ [newline]"

definition filePath :: "Manager \<Rightarrow> string \<Rightarrow> string" where
  "filePath m sfx = filepath_Join (resolverFilesDir m) sfx"

text \<open>\<^verbatim>\<open>createResolverFile\<close>: nothing is written when the file is there with the expected
  content.\<close>

definition createResolverFile ::
  "os_faults \<Rightarrow> Manager \<Rightarrow> resolver_os \<Rightarrow> string \<Rightarrow> error option \<times> resolver_os" where
  "createResolverFile F m os sfx =
     (if files os (filePath m sfx) = Some (expectedContent m) then (None, os)
      else if tee_error F (filePath m sfx) then (Some (WriteFailed (filePath m sfx)), os)
      else (None, os\<lparr>files := (files os)(filePath m sfx \<mapsto> expectedContent m),
                      events := events os @ [Wrote (filePath m sfx) (expectedContent m)]\<rparr>))"

definition removeResolverFile ::
  "os_faults \<Rightarrow> Manager \<Rightarrow> resolver_os \<Rightarrow> string \<Rightarrow> error option \<times> Manager \<times> resolver_os" where
  "removeResolverFile F m os sfx =
     (if rm_error F (filePath m sfx) then (Some (RemoveFailed (filePath m sfx)), m, os)
      else (None, m\<lparr>managedDomains := removeAll sfx (managedDomains m)\<rparr>,
            os\<lparr>files := (files os)(filePath m sfx := None),
               events := events os @ [Removed (filePath m sfx)]\<rparr>))"

definition flushDNSCache :: "resolver_os \<Rightarrow> resolver_os" where
  "flushDNSCache os = os\<lparr>events := events os @ [Flushed]\<rparr>"

text \<open>The first loop of \<^verbatim>\<open>UpdateResolverFiles\<close>, over the suffixes. \<open>m\<close> is the manager as
  the call found it: the loop reads \<^verbatim>\<open>m.managedDomains\<close> and does not change it.\<close>

fun create_loop ::
  "os_faults \<Rightarrow> Manager \<Rightarrow> resolver_os \<Rightarrow> string list \<Rightarrow> string list \<Rightarrow> bool
     \<Rightarrow> resolver_os \<times> string list \<times> bool" where
  "create_loop F m os [] newDomains changesMade = (os, newDomains, changesMade)"
| "create_loop F m os (sfx # rest) newDomains changesMade =
     (let isNew = (sfx \<notin> set (managedDomains m))
      in case createResolverFile F m os sfx of
           (Some err, os') \<Rightarrow> create_loop F m os' rest newDomains changesMade
         | (None, os') \<Rightarrow>
             create_loop F m os' rest (map_insert sfx newDomains)
               (if isNew then True else changesMade))"

text \<open>The second loop, over the keys of \<^verbatim>\<open>m.managedDomains\<close> as they were when the loop
  began (\<open>domains\<close>); \<^verbatim>\<open>removeResolverFile\<close> deletes the key it is called on.\<close>

fun remove_loop ::
  "os_faults \<Rightarrow> Manager \<Rightarrow> resolver_os \<Rightarrow> string list \<Rightarrow> string list \<Rightarrow> bool
     \<Rightarrow> Manager \<times> resolver_os \<times> bool" where
  "remove_loop F m os [] newDomains changesMade = (m, os, changesMade)"
| "remove_loop F m os (domain # rest) newDomains changesMade =
     (if domain \<notin> set newDomains then
        (case removeResolverFile F m os domain of
           (Some err, m', os') \<Rightarrow> remove_loop F m' os' rest newDomains changesMade
         | (None, m', os') \<Rightarrow> remove_loop F m' os' rest newDomains True)
      else remove_loop F m os rest newDomains changesMade)"

text \<open>\<^verbatim>\<open>UpdateResolverFiles\<close> from the slice of suffixes on, and the whole function.\<close>

definition update_with_suffixes ::
  "os_faults \<Rightarrow> Manager \<Rightarrow> resolver_os \<Rightarrow> string list \<Rightarrow> error option \<times> Manager \<times> resolver_os" where
  "update_with_suffixes F m os sfxs =
     (if length sfxs = 0 then (None, m, os)
      else (case ensureResolverDir F m os of
              (Some err, os1) \<Rightarrow> (Some err, m, os1)
            | (None, os1) \<Rightarrow>
                (case create_loop F m os1 sfxs [] False of
                   (os2, newDomains, changesMade) \<Rightarrow>
                     (case remove_loop F m os2 (managedDomains m) newDomains changesMade of
                        (m3, os3, changesMade3) \<Rightarrow>
                          (let m4 = m3\<lparr>managedDomains := newDomains\<rparr>
                           in if changesMade3 then (None, m4, flushDNSCache os3)
                              else (None, m4, os3))))))"

definition UpdateResolverFiles ::
  "unicode_lib \<Rightarrow> os_faults \<Rightarrow> Manager \<Rightarrow> resolver_os \<Rightarrow> Record list
     \<Rightarrow> error option \<times> Manager \<times> resolver_os" where
  "UpdateResolverFiles U F m os recs = update_with_suffixes F m os (extractDomainSuffixes U recs)"

subsection \<open>When a hint is created or verified\<close>

text \<open>\<^verbatim>\<open>createResolverFile\<close> returns no error for a suffix exactly when its file already
  has the expected content or \<^verbatim>\<open>tee\<close> succeeds on its path.\<close>

definition create_ok :: "os_faults \<Rightarrow> Manager \<Rightarrow> resolver_os \<Rightarrow> string \<Rightarrow> bool" where
  "create_ok F m os sfx =
     (files os (filePath m sfx) = Some (expectedContent m) \<or> \<not> tee_error F (filePath m sfx))"

subsection \<open>The effects of a pass\<close>

text \<open>The effects of a pass: the events logged between the state before and the state
  after.\<close>

definition pass_events :: "resolver_os \<Rightarrow> resolver_os \<Rightarrow> os_event list" where
  "pass_events os os' = drop (length (events os)) (events os')"

subsection \<open>Example states\<close>

text \<open>A world where no command fails; the hint content for the bind IP \<^verbatim>\<open>127.1.2.3\<close>;
  a manager with that bind IP and given managed suffixes; a disk with given files and the
  resolver directory in place; records for given domains.\<close>

definition no_faults :: os_faults where
  "no_faults = \<lparr>tee_error = (\<lambda>p. False), rm_error = (\<lambda>p. False), mkdir_error = False\<rparr>"

definition hint :: string where
  "hint = ''nameserver 127.1.2.3'' @ [newline] @ ''port 53'' @ [newline]"

definition empty_os :: resolver_os where
  "empty_os = \<lparr>files = Map.empty, dir_exists = False, events = []\<rparr>"

definition managing :: "string list \<Rightarrow> Manager" where
  "managing ds = \<lparr>manager_bindIP = ''127.1.2.3'', managedDomains = ds, resolverFilesDir = macOSResolverDir\<rparr>"

definition disk :: "(string \<times> string) list \<Rightarrow> resolver_os" where
  "disk fs = \<lparr>files = map_of fs, dir_exists = True, events = []\<rparr>"

definition records_for :: "string list \<Rightarrow> Record list" where
  "records_for ds = map (\<lambda>d. \<lparr>rDomain = d, rIP = ''10.0.0.1''\<rparr>) ds"

subsection \<open>Three calls in a row\<close>

text \<open>Three calls: records with the domain \<^verbatim>\<open>a/\<close> from a fresh
  manager, then records with the domain \<^verbatim>\<open>a\<close>, then the same records again.\<close>

definition call_slash :: "error option \<times> Manager \<times> resolver_os" where
  "call_slash = UpdateResolverFiles ascii_lib no_faults (NewManager ''127.1.2.3'') empty_os
                  (records_for [''a/''])"

definition call_first :: "error option \<times> Manager \<times> resolver_os" where
  "call_first = UpdateResolverFiles ascii_lib no_faults (fst (snd call_slash)) (snd (snd call_slash))
                  (records_for [''a''])"

definition call_second :: "error option \<times> Manager \<times> resolver_os" where
  "call_second = UpdateResolverFiles ascii_lib no_faults (fst (snd call_first)) (snd (snd call_first))
                   (records_for [''a''])"

chapter \<open>Properties\<close>

section \<open>Suffix extraction on the documented patterns\<close>

text \<open>
  Claim C7. \<^verbatim>\<open>extractSuffix\<close> applied to the pattern \<^verbatim>\<open>^[a-zA-Z0-9-]+\.myhost\.$\<close>
  returns \<^verbatim>\<open>myhost\<close>, and applied to \<^verbatim>\<open>api.example.com\<close> it returns \<^verbatim>\<open>com\<close>: the top
  label, not the registrable domain. Both inputs are ASCII, so the result is the same
  whatever the Unicode tables are.
\<close>

theorem extractSuffix_documented_patterns:
  "extractSuffix U (''^[a-zA-Z0-9-]+'' @ [bslash] @ ''.myhost'' @ [bslash] @ ''.$'') = ''myhost''
   \<and> extractSuffix U ''api.example.com'' = ''com''"
  by code_simp

section \<open>Properties of the matcher\<close>

subsection \<open>Bytes and case\<close>

lemma lowerASCII_upperASCII: "lowerASCII (upperASCII c) = lowerASCII c"
proof (cases "isLowerASCII c")
  case True
  then have a: "97 \<le> (of_char c :: nat)" "(of_char c :: nat) \<le> 122"
    by (simp_all add: isLowerASCII_def)
  have b: "(of_char (char_of ((of_char c :: nat) - 32)) :: nat) = of_char c - 32"
    using a by (simp add: of_char_of)
  have "65 \<le> (of_char c :: nat) - 32 \<and> (of_char c :: nat) - 32 \<le> 90"
    using a by arith
  then have "isUpperASCII (upperASCII c)"
    using True b by (simp add: upperASCII_def isUpperASCII_def)
  moreover have "\<not> isUpperASCII c"
    using a by (simp add: isUpperASCII_def)
  ultimately show ?thesis
    using True a b by (simp add: lowerASCII_def upperASCII_def)
next
  case False
  then show ?thesis by (simp add: upperASCII_def)
qed

lemma ascii_byte_upperASCII: "ascii_byte (upperASCII c) = ascii_byte c"
proof (cases "isLowerASCII c")
  case True
  then have a: "97 \<le> (of_char c :: nat)" "(of_char c :: nat) \<le> 122"
    by (simp_all add: isLowerASCII_def)
  have b: "(of_char (char_of ((of_char c :: nat) - 32)) :: nat) = of_char c - 32"
    using a by (simp add: of_char_of)
  show ?thesis using True a b by (simp add: upperASCII_def ascii_byte_def)
next
  case False
  then show ?thesis by (simp add: upperASCII_def)
qed

lemma lowerASCII_dot: "(lowerASCII c = CHR ''.'') = (c = CHR ''.'')"
proof (cases "isUpperASCII c")
  case True
  then have a: "65 \<le> (of_char c :: nat)" "(of_char c :: nat) \<le> 90"
    by (simp_all add: isUpperASCII_def)
  have b: "(of_char (char_of ((of_char c :: nat) + 32)) :: nat) = of_char c + 32"
    using a by (simp add: of_char_of)
  have "(of_char (lowerASCII c) :: nat) \<noteq> of_char (CHR ''.'')"
    using True a b by (simp add: lowerASCII_def)
  moreover have "(of_char c :: nat) \<noteq> of_char (CHR ''.'')"
    using a by simp
  ultimately show ?thesis by auto
next
  case False
  then show ?thesis by (simp add: lowerASCII_def)
qed

lemma HasSuffix_dot: "HasSuffix s ''.'' = (s \<noteq> [] \<and> last s = CHR ''.'')"
proof (cases s rule: rev_cases)
  case Nil
  then show ?thesis by (simp add: HasSuffix_def)
next
  case (snoc ys y)
  then show ?thesis by (auto simp add: HasSuffix_def)
qed

lemma is_ascii_upper: "is_ascii (map upperASCII s) = is_ascii s"
  by (simp add: is_ascii_def list_all_iff ascii_byte_upperASCII)

lemma ToLower_upper: "is_ascii s \<Longrightarrow> ToLower U (map upperASCII s) = ToLower U s"
  by (simp add: ToLower_def is_ascii_upper lowerASCII_upperASCII)

lemma HasSuffix_dot_lower: "HasSuffix (map lowerASCII s) ''.'' = HasSuffix s ''.''"
  by (cases "s = []") (simp_all add: HasSuffix_dot last_map lowerASCII_dot)

lemma fqdn_lower_upper: "is_ascii s \<Longrightarrow> fqdn_lower U (map upperASCII s) = fqdn_lower U s"
  by (simp add: fqdn_lower_def ToLower_upper)

lemma fqdn_lower_dot:
  assumes "is_ascii s" "\<not> HasSuffix s ''.''"
  shows "fqdn_lower U (s @ ''.'') = fqdn_lower U s"
proof -
  have a: "is_ascii (s @ ''.'')"
    using assms(1) by (simp add: is_ascii_def ascii_byte_def)
  have b: "lowerASCII (CHR ''.'') = CHR ''.''"
    by (simp add: lowerASCII_dot)
  have "ToLower U (s @ ''.'') = map lowerASCII s @ ''.''"
    using a b by (simp add: ToLower_def)
  moreover have "ToLower U s = map lowerASCII s"
    using assms(1) by (simp add: ToLower_def)
  ultimately show ?thesis
    using assms(2) by (simp add: fqdn_lower_def HasSuffix_dot_lower) (simp add: HasSuffix_dot)
qed

subsection \<open>The scan\<close>

lemma match_loop_member:
  "r \<in> set recs \<Longrightarrow> snd (match_loop R U cache (fqdn_lower U (rDomain r)) recs)"
  by (induction recs) (auto simp add: Let_def split: option.splits)

lemma match_loop_find:
  "match_loop R U cache domain recs =
     (case find (record_matches R U cache domain) recs of
        None \<Rightarrow> ('''', False)
      | Some r \<Rightarrow> (rIP r, True))"
  by (induction recs) (auto simp add: Let_def record_matches_def split: option.splits)

lemma find_first:
  "\<forall>x\<in>set pre. \<not> P x \<Longrightarrow> P r \<Longrightarrow> find P (pre @ r # post) = Some r"
  by (induction pre) auto

lemma match_loop_found:
  "match_loop R U cache domain recs = (ip, True) \<Longrightarrow>
     \<exists>r\<in>set recs. rIP r = ip \<and> record_matches R U cache domain r"
  by (induction recs) (auto simp add: Let_def record_matches_def split: option.splits if_splits)

lemma compile_loop_cases:
  "compile_loop R recs cache p = Some re \<Longrightarrow>
     cache p = Some re \<or> (p \<in> rDomain ` set recs \<and> HasPrefix p ''^'' \<and> Compile R p = Some re)"
  by (induction recs arbitrary: cache) (fastforce split: if_splits option.splits)+

lemma Update_eq_NewMatcher: "Update R m recs = NewMatcher R recs"
  by (simp add: Update_def NewMatcher_def compilePatterns_def)

subsection \<open>Trailing dot and case of the query\<close>

text \<open>
  Claim C5, as amended. For every matcher state and every record of it whose domain \<open>D\<close>
  is ASCII and does not end in a dot (literal or not): \<open>Resolve D\<close>, \<open>Resolve (D + ".")\<close>
  and \<open>Resolve (uppercase D)\<close> return the same pair, and that pair says found.
  Without the restriction on the dot the claim fails: \<^verbatim>\<open>Match\<close> appends a dot only when
  there is none and never removes one.
\<close>

theorem Resolve_dot_and_case:
  assumes "r \<in> set (records m)"
    and "is_ascii (rDomain r)"
    and "\<not> HasSuffix (rDomain r) ''.''"
  shows "Resolve R U m (rDomain r @ ''.'') = Resolve R U m (rDomain r)
       \<and> Resolve R U m (map upperASCII (rDomain r)) = Resolve R U m (rDomain r)
       \<and> snd (Resolve R U m (rDomain r))"
proof -
  have "fqdn_lower U (rDomain r @ ''.'') = fqdn_lower U (rDomain r)"
    using assms(2,3) by (rule fqdn_lower_dot)
  moreover have "fqdn_lower U (map upperASCII (rDomain r)) = fqdn_lower U (rDomain r)"
    using assms(2) by (rule fqdn_lower_upper)
  moreover have "snd (match_loop R U (regexCache m) (fqdn_lower U (rDomain r)) (records m))"
    using assms(1) by (rule match_loop_member)
  ultimately show ?thesis
    by (simp add: Resolve_def Match_def)
qed

theorem Resolve_dot_and_case_witness:
  "\<lparr>rDomain = ''myhost'', rIP = ''10.0.0.1''\<rparr> \<in> set (records (NewMatcher anchored_lib literal_then_regex))
   \<and> is_ascii ''myhost'' \<and> \<not> HasSuffix ''myhost'' ''.''
   \<and> Resolve anchored_lib ascii_lib (NewMatcher anchored_lib literal_then_regex) ''myhost.''
       = Resolve anchored_lib ascii_lib (NewMatcher anchored_lib literal_then_regex) ''myhost''
   \<and> Resolve anchored_lib ascii_lib (NewMatcher anchored_lib literal_then_regex) ''MYHOST''
       = Resolve anchored_lib ascii_lib (NewMatcher anchored_lib literal_then_regex) ''myhost''
   \<and> Resolve anchored_lib ascii_lib (NewMatcher anchored_lib literal_then_regex) ''myhost''
       = (''10.0.0.1'', True)"
proof -
  let ?r = "\<lparr>rDomain = ''myhost'', rIP = ''10.0.0.1''\<rparr>"
  let ?m = "NewMatcher anchored_lib literal_then_regex"
  have h1: "?r \<in> set (records ?m)"
    by (simp add: NewMatcher_def compilePatterns_def literal_then_regex_def)
  have h2: "is_ascii (rDomain ?r)"
    by (simp add: is_ascii_def ascii_byte_def)
  have h3: "\<not> HasSuffix (rDomain ?r) ''.''"
    by (simp add: HasSuffix_def)
  have up: "map upperASCII ''myhost'' = ''MYHOST''"
    by code_simp
  have val: "Resolve anchored_lib ascii_lib ?m ''myhost'' = (''10.0.0.1'', True)"
    by code_simp
  show ?thesis
    using h1 h2 h3 up val Resolve_dot_and_case [OF h1 h2 h3, where R = anchored_lib and U = ascii_lib]
    by simp
qed

theorem Resolve_trailing_dot_counterexample:
  "Resolve anchored_lib ascii_lib
     (NewMatcher anchored_lib [\<lparr>rDomain = ''myhost.'', rIP = ''10.0.0.1''\<rparr>]) ''myhost.''
     = (''10.0.0.1'', True)
   \<and> Resolve anchored_lib ascii_lib
     (NewMatcher anchored_lib [\<lparr>rDomain = ''myhost.'', rIP = ''10.0.0.1''\<rparr>]) (''myhost.'' @ ''.'')
     = ('''', False)"
  by code_simp

subsection \<open>Declaration order is priority\<close>

text \<open>
  Claim C6. For every record list and query name, \<^verbatim>\<open>Match\<close> returns the IP of the first
  record, in declaration order, that matches the normalised query exactly or through
  its compiled pattern, and not-found when there is none. So a record that matches wins
  over every matching record declared after it, whichever of the two is the literal
  and whichever the regex.
\<close>

theorem Match_first_match_wins:
  "Match R U m name =
     (case find (record_matches R U (regexCache m) (fqdn_lower U name)) (records m) of
        None \<Rightarrow> ('''', False)
      | Some r \<Rightarrow> (rIP r, True))
   \<and> (records m = pre @ r1 # post
        \<and> (\<forall>x\<in>set pre. \<not> record_matches R U (regexCache m) (fqdn_lower U name) x)
        \<and> record_matches R U (regexCache m) (fqdn_lower U name) r1
      \<longrightarrow> Match R U m name = (rIP r1, True))"
proof -
  have eq: "Match R U m name =
     (case find (record_matches R U (regexCache m) (fqdn_lower U name)) (records m) of
        None \<Rightarrow> ('''', False)
      | Some r \<Rightarrow> (rIP r, True))"
    unfolding Match_def by (rule match_loop_find)
  show ?thesis
  proof (intro conjI impI)
    show "Match R U m name =
     (case find (record_matches R U (regexCache m) (fqdn_lower U name)) (records m) of
        None \<Rightarrow> ('''', False)
      | Some r \<Rightarrow> (rIP r, True))"
      by (rule eq)
  next
    assume a: "records m = pre @ r1 # post
        \<and> (\<forall>x\<in>set pre. \<not> record_matches R U (regexCache m) (fqdn_lower U name) x)
        \<and> record_matches R U (regexCache m) (fqdn_lower U name) r1"
    then have "find (record_matches R U (regexCache m) (fqdn_lower U name)) (records m) = Some r1"
      by (simp add: find_first)
    then show "Match R U m name = (rIP r1, True)"
      using eq by simp
  qed
qed

theorem Match_first_match_wins_witness:
  "record_matches anchored_lib ascii_lib (regexCache (NewMatcher anchored_lib literal_then_regex))
      (fqdn_lower ascii_lib ''myhost'') \<lparr>rDomain = ''myhost'', rIP = ''10.0.0.1''\<rparr>
   \<and> record_matches anchored_lib ascii_lib (regexCache (NewMatcher anchored_lib literal_then_regex))
      (fqdn_lower ascii_lib ''myhost'') \<lparr>rDomain = ''^myhost'' @ [bslash] @ ''.$'', rIP = ''10.0.0.2''\<rparr>
   \<and> Match anchored_lib ascii_lib (NewMatcher anchored_lib literal_then_regex) ''myhost''
       = (''10.0.0.1'', True)
   \<and> Match anchored_lib ascii_lib (NewMatcher anchored_lib regex_then_literal) ''myhost''
       = (''10.0.0.2'', True)"
proof -
  let ?lit = "\<lparr>rDomain = ''myhost'', rIP = ''10.0.0.1''\<rparr>"
  let ?re = "\<lparr>rDomain = ''^myhost'' @ [bslash] @ ''.$'', rIP = ''10.0.0.2''\<rparr>"
  let ?m1 = "NewMatcher anchored_lib literal_then_regex"
  let ?m2 = "NewMatcher anchored_lib regex_then_literal"
  have c1: "regexCache ?m1 = regexCache ?m2"
    by (simp add: NewMatcher_def compilePatterns_def literal_then_regex_def regex_then_literal_def
        HasPrefix_def)
  have l: "record_matches anchored_lib ascii_lib (regexCache ?m1) (fqdn_lower ascii_lib ''myhost'') ?lit"
    by code_simp
  have r: "record_matches anchored_lib ascii_lib (regexCache ?m1) (fqdn_lower ascii_lib ''myhost'') ?re"
    by code_simp
  have d1: "records ?m1 = [] @ ?lit # [?re]"
    by (simp add: NewMatcher_def compilePatterns_def literal_then_regex_def)
  have d2: "records ?m2 = [] @ ?re # [?lit]"
    by (simp add: NewMatcher_def compilePatterns_def regex_then_literal_def)
  have "Match anchored_lib ascii_lib ?m1 ''myhost'' = (rIP ?lit, True)"
    using Match_first_match_wins [of anchored_lib ascii_lib ?m1 "''myhost''" "[]" ?lit "[?re]"] d1 l
    by simp
  moreover have "Match anchored_lib ascii_lib ?m2 ''myhost'' = (rIP ?re, True)"
    using Match_first_match_wins [of anchored_lib ascii_lib ?m2 "''myhost''" "[]" ?re "[?lit]"] d2 r c1
    by simp
  ultimately show ?thesis
    using l r by simp
qed

subsection \<open>No stale data after an update\<close>

text \<open>
  Claim C10. Whenever \<^verbatim>\<open>Match\<close> returns \<open>(ip, true)\<close>, \<open>ip\<close> is the IP field of a record
  of the matcher's current record list. \<^verbatim>\<open>Update\<close> replaces the record slice and the
  whole cache: the state it leaves is the state \<^verbatim>\<open>NewMatcher\<close> builds from the new
  records alone, every cached pattern is the domain of a new record, compiled from
  that text, and a query resolved after the update is resolved by a new record, through
  its own domain or its own compiled pattern.
\<close>

theorem Match_no_stale_data:
  "(Match R U m name = (ip, True) \<longrightarrow> (\<exists>r\<in>set (records m). rIP r = ip))
   \<and> Update R m recs = NewMatcher R recs
   \<and> records (Update R m recs) = recs
   \<and> (regexCache (Update R m recs) p = Some re
        \<longrightarrow> p \<in> rDomain ` set recs \<and> HasPrefix p ''^'' \<and> Compile R p = Some re)
   \<and> (Match R U (Update R m recs) name = (ip, True)
        \<longrightarrow> (\<exists>r\<in>set recs. rIP r = ip
              \<and> (fqdn_lower U (rDomain r) = fqdn_lower U name
                  \<or> (HasPrefix (rDomain r) ''^''
                      \<and> (\<exists>c. Compile R (rDomain r) = Some c \<and> MatchString R c (fqdn_lower U name))))))"
proof -
  have c1: "Match R U m name = (ip, True) \<longrightarrow> (\<exists>r\<in>set (records m). rIP r = ip)"
    unfolding Match_def by (blast dest: match_loop_found)
  have c2: "Update R m recs = NewMatcher R recs"
    by (rule Update_eq_NewMatcher)
  have c3: "records (Update R m recs) = recs"
    by (simp add: Update_def compilePatterns_def)
  have cache: "regexCache (Update R m recs) = compile_loop R recs Map.empty"
    by (simp add: Update_def compilePatterns_def)
  have c4: "regexCache (Update R m recs) p = Some re
        \<longrightarrow> p \<in> rDomain ` set recs \<and> HasPrefix p ''^'' \<and> Compile R p = Some re"
    unfolding cache by (auto dest: compile_loop_cases)
  have c5: "Match R U (Update R m recs) name = (ip, True)
        \<longrightarrow> (\<exists>r\<in>set recs. rIP r = ip
              \<and> (fqdn_lower U (rDomain r) = fqdn_lower U name
                  \<or> (HasPrefix (rDomain r) ''^''
                      \<and> (\<exists>c. Compile R (rDomain r) = Some c \<and> MatchString R c (fqdn_lower U name)))))"
  proof
    assume "Match R U (Update R m recs) name = (ip, True)"
    then have "match_loop R U (compile_loop R recs Map.empty) (fqdn_lower U name) recs = (ip, True)"
      by (simp add: Match_def cache c3)
    then obtain r where r: "r \<in> set recs" "rIP r = ip"
        "record_matches R U (compile_loop R recs Map.empty) (fqdn_lower U name) r"
      by (blast dest: match_loop_found)
    have "fqdn_lower U (rDomain r) = fqdn_lower U name
          \<or> (HasPrefix (rDomain r) ''^''
              \<and> (\<exists>c. Compile R (rDomain r) = Some c \<and> MatchString R c (fqdn_lower U name)))"
    proof (cases "fqdn_lower U (rDomain r) = fqdn_lower U name")
      case True
      then show ?thesis by simp
    next
      case False
      with r(3) obtain c where c: "compile_loop R recs Map.empty (rDomain r) = Some c"
          "MatchString R c (fqdn_lower U name)"
        by (auto simp add: record_matches_def split: option.splits)
      from c(1) have "HasPrefix (rDomain r) ''^'' \<and> Compile R (rDomain r) = Some c"
        by (auto dest: compile_loop_cases)
      with c(2) show ?thesis by blast
    qed
    with r(1,2) show "\<exists>r\<in>set recs. rIP r = ip
              \<and> (fqdn_lower U (rDomain r) = fqdn_lower U name
                  \<or> (HasPrefix (rDomain r) ''^''
                      \<and> (\<exists>c. Compile R (rDomain r) = Some c \<and> MatchString R c (fqdn_lower U name))))"
      by blast
  qed
  from c1 c2 c3 c4 c5 show ?thesis
    by (intro conjI)
qed

theorem Match_no_stale_data_witness:
  "Match anchored_lib ascii_lib (NewMatcher anchored_lib old_records) ''old'' = (''1.1.1.2'', True)
   \<and> Match anchored_lib ascii_lib (Update anchored_lib (NewMatcher anchored_lib old_records) new_records) ''new''
       = (''2.2.2.3'', True)
   \<and> regexCache (Update anchored_lib (NewMatcher anchored_lib old_records) new_records)
       (''^new'' @ [bslash] @ ''.$'') = Some (''new'' @ [bslash] @ ''.'')
   \<and> (\<exists>r\<in>set (records (NewMatcher anchored_lib old_records)). rIP r = ''1.1.1.2'')
   \<and> (\<exists>r\<in>set new_records. rIP r = ''2.2.2.3'')
   \<and> Compile anchored_lib (''^new'' @ [bslash] @ ''.$'') = Some (''new'' @ [bslash] @ ''.'')
   \<and> Match anchored_lib ascii_lib (Update anchored_lib (NewMatcher anchored_lib old_records) new_records) ''old''
       = ('''', False)
   \<and> Match anchored_lib ascii_lib (Update anchored_lib (NewMatcher anchored_lib old_records) new_records) ''old.test''
       = ('''', False)"
proof -
  let ?m = "NewMatcher anchored_lib old_records"
  let ?p = "''^new'' @ [bslash] @ ''.$''"
  let ?c = "''new'' @ [bslash] @ ''.''"
  have h1: "Match anchored_lib ascii_lib ?m ''old'' = (''1.1.1.2'', True)"
    by code_simp
  have h2: "Match anchored_lib ascii_lib (Update anchored_lib ?m new_records) ''new'' = (''2.2.2.3'', True)"
    by code_simp
  have h3: "regexCache (Update anchored_lib ?m new_records) ?p = Some ?c"
    by code_simp
  have g1: "Match anchored_lib ascii_lib (Update anchored_lib ?m new_records) ''old'' = ('''', False)"
    by code_simp
  have g2: "Match anchored_lib ascii_lib (Update anchored_lib ?m new_records) ''old.test'' = ('''', False)"
    by code_simp
  have a: "\<exists>r\<in>set (records ?m). rIP r = ''1.1.1.2''"
    using Match_no_stale_data [of anchored_lib ascii_lib ?m "''old''" "''1.1.1.2''"] h1 by blast
  have b: "\<exists>r\<in>set new_records. rIP r = ''2.2.2.3''"
    using Match_no_stale_data [of anchored_lib ascii_lib ?m "''new''" "''2.2.2.3''" new_records] h2
    by blast
  have c: "Compile anchored_lib ?p = Some ?c"
    using Match_no_stale_data [of anchored_lib ascii_lib ?m "''new''" "''2.2.2.3''" new_records ?p ?c] h3
    by blast
  show ?thesis
    using h1 h2 h3 g1 g2 a b c by simp
qed

section \<open>The DNS handler\<close>

text \<open>One turn of the loop appends to the answer section the address record of a
  matched question of type A and nothing else, and sets the code to name-error for an
  unmatched question of type A and leaves it alone otherwise; the whole loop does so for
  every question in turn.\<close>

lemma serve_question_reply:
  "Answer (serve_question R U parseIP c r m q) =
     Answer m @ (if Qtype q = TypeA \<and> snd (Lookup R U c (ToLower U (Name q)))
                 then [\<lparr>Hdr_Name = Name q, Hdr_Rrtype = TypeA, Hdr_Class = ClassINET,
                        Hdr_Ttl = 300, A = parseIP (fst (Lookup R U c (ToLower U (Name q))))\<rparr>]
                 else [])"
  "Rcode (serve_question R U parseIP c r m q) =
     (if Qtype q = TypeA \<and> \<not> snd (Lookup R U c (ToLower U (Name q))) then RcodeNameError
      else Rcode m)"
  by (simp_all add: serve_question_def SetRcode_def SetReply_def split: prod.splits)

lemma serve_questions_reply:
  "Answer (serve_questions R U parseIP c r m qs) =
     Answer m @ map (\<lambda>q. \<lparr>Hdr_Name = Name q, Hdr_Rrtype = TypeA, Hdr_Class = ClassINET,
                           Hdr_Ttl = 300, A = parseIP (fst (Lookup R U c (ToLower U (Name q))))\<rparr>)
                  (filter (\<lambda>q. Qtype q = TypeA \<and> snd (Lookup R U c (ToLower U (Name q)))) qs)
   \<and> Rcode (serve_questions R U parseIP c r m qs) =
     (if \<exists>q\<in>set qs. Qtype q = TypeA \<and> \<not> snd (Lookup R U c (ToLower U (Name q)))
      then RcodeNameError else Rcode m)"
proof (induction qs arbitrary: m)
  case Nil
  then show ?case by simp
next
  case (Cons q qs)
  show ?case
    using Cons.IH [of "serve_question R U parseIP c r m q"]
    by (auto simp add: serve_question_reply)
qed

text \<open>
  Claim C1, as amended. For every DNS query, whatever the number of its questions: the
  answer section of the reply holds, in the order of the questions, one address record
  for each question of type A whose lower-cased name resolves, carrying the question's
  name, class IN, the TTL 300 and the parsed form of the matched IP, and nothing else;
  the code of the reply is name-error (NXDOMAIN) if some question of type A does not
  resolve, and success otherwise. A question of any other type is skipped: it adds no
  answer and does not make the code name-error. In particular, for a query with one
  question: a matched question of type A gives code success and the one address answer,
  an unmatched question of type A gives name-error and no answer, and a question of
  another type gives code success and no answer. The same three cases hold of each turn
  of the loop, from the reply built so far.
\<close>

theorem ServeDNS_answers:
  "Answer (ServeDNS R U parseIP c r) =
     map (\<lambda>q'. \<lparr>Hdr_Name = Name q', Hdr_Rrtype = TypeA, Hdr_Class = ClassINET,
                 Hdr_Ttl = 300, A = parseIP (fst (Lookup R U c (ToLower U (Name q'))))\<rparr>)
       (filter (\<lambda>q'. Qtype q' = TypeA \<and> snd (Lookup R U c (ToLower U (Name q'))))
          (Question r))
   \<and> Rcode (ServeDNS R U parseIP c r) =
       (if \<exists>q'\<in>set (Question r). Qtype q' = TypeA \<and> \<not> snd (Lookup R U c (ToLower U (Name q')))
        then RcodeNameError else RcodeSuccess)
   \<and> (Question r = [q] \<and> Qtype q = TypeA \<and> Lookup R U c (ToLower U (Name q)) = (ip, True)
      \<longrightarrow> Rcode (ServeDNS R U parseIP c r) = RcodeSuccess
          \<and> Answer (ServeDNS R U parseIP c r) =
              [\<lparr>Hdr_Name = Name q, Hdr_Rrtype = TypeA, Hdr_Class = ClassINET,
                Hdr_Ttl = 300, A = parseIP ip\<rparr>])
   \<and> (Question r = [q] \<and> Qtype q = TypeA \<and> \<not> snd (Lookup R U c (ToLower U (Name q)))
      \<longrightarrow> Rcode (ServeDNS R U parseIP c r) = RcodeNameError
          \<and> Answer (ServeDNS R U parseIP c r) = [])
   \<and> (Question r = [q] \<and> Qtype q \<noteq> TypeA
      \<longrightarrow> Rcode (ServeDNS R U parseIP c r) = RcodeSuccess
          \<and> Answer (ServeDNS R U parseIP c r) = [])
   \<and> (Qtype q = TypeA \<and> Lookup R U c (ToLower U (Name q)) = (ip, True)
      \<longrightarrow> serve_question R U parseIP c r m q =
            m\<lparr>Answer := Answer m @
                [\<lparr>Hdr_Name = Name q, Hdr_Rrtype = TypeA, Hdr_Class = ClassINET,
                  Hdr_Ttl = 300, A = parseIP ip\<rparr>]\<rparr>)
   \<and> (Qtype q = TypeA \<and> \<not> snd (Lookup R U c (ToLower U (Name q)))
      \<longrightarrow> Rcode (serve_question R U parseIP c r m q) = RcodeNameError
          \<and> Answer (serve_question R U parseIP c r m q) = Answer m)
   \<and> (Qtype q \<noteq> TypeA \<longrightarrow> serve_question R U parseIP c r m q = m)"
proof -
  have a1: "Qtype q = TypeA \<and> Lookup R U c (ToLower U (Name q)) = (ip, True)
      \<longrightarrow> serve_question R U parseIP c r m' q =
            m'\<lparr>Answer := Answer m' @
                [\<lparr>Hdr_Name = Name q, Hdr_Rrtype = TypeA, Hdr_Class = ClassINET,
                  Hdr_Ttl = 300, A = parseIP ip\<rparr>]\<rparr>" for m'
    by (simp add: serve_question_def)
  have a2: "Qtype q = TypeA \<and> \<not> snd (Lookup R U c (ToLower U (Name q)))
      \<longrightarrow> Rcode (serve_question R U parseIP c r m' q) = RcodeNameError
          \<and> Answer (serve_question R U parseIP c r m' q) = Answer m'" for m'
    by (simp add: serve_question_def SetRcode_def SetReply_def split: prod.splits)
  have a3: "Qtype q \<noteq> TypeA \<longrightarrow> serve_question R U parseIP c r m' q = m'" for m'
    by (simp add: serve_question_def)
  have start: "Rcode (SetReply new_Msg r) = RcodeSuccess" "Answer (SetReply new_Msg r) = []"
    by (simp_all add: SetReply_def new_Msg_def)
  have one: "Question r = [q] \<longrightarrow>
      ServeDNS R U parseIP c r = serve_question R U parseIP c r (SetReply new_Msg r) q"
    by (simp add: ServeDNS_def)
  have b1: "Question r = [q] \<and> Qtype q = TypeA \<and> Lookup R U c (ToLower U (Name q)) = (ip, True)
      \<longrightarrow> Rcode (ServeDNS R U parseIP c r) = RcodeSuccess
          \<and> Answer (ServeDNS R U parseIP c r) =
              [\<lparr>Hdr_Name = Name q, Hdr_Rrtype = TypeA, Hdr_Class = ClassINET,
                Hdr_Ttl = 300, A = parseIP ip\<rparr>]"
    using one a1 [of "SetReply new_Msg r"] start by simp
  have b2: "Question r = [q] \<and> Qtype q = TypeA \<and> \<not> snd (Lookup R U c (ToLower U (Name q)))
      \<longrightarrow> Rcode (ServeDNS R U parseIP c r) = RcodeNameError
          \<and> Answer (ServeDNS R U parseIP c r) = []"
    using one a2 [of "SetReply new_Msg r"] start by simp
  have b3: "Question r = [q] \<and> Qtype q \<noteq> TypeA
      \<longrightarrow> Rcode (ServeDNS R U parseIP c r) = RcodeSuccess
          \<and> Answer (ServeDNS R U parseIP c r) = []"
    using one a3 [of "SetReply new_Msg r"] start by simp
  have g1: "Answer (ServeDNS R U parseIP c r) =
     map (\<lambda>q'. \<lparr>Hdr_Name = Name q', Hdr_Rrtype = TypeA, Hdr_Class = ClassINET,
                 Hdr_Ttl = 300, A = parseIP (fst (Lookup R U c (ToLower U (Name q'))))\<rparr>)
       (filter (\<lambda>q'. Qtype q' = TypeA \<and> snd (Lookup R U c (ToLower U (Name q'))))
          (Question r))"
    by (simp only: ServeDNS_def serve_questions_reply [THEN conjunct1] start append_Nil)
  have g2: "Rcode (ServeDNS R U parseIP c r) =
       (if \<exists>q'\<in>set (Question r). Qtype q' = TypeA \<and> \<not> snd (Lookup R U c (ToLower U (Name q')))
        then RcodeNameError else RcodeSuccess)"
    by (simp only: ServeDNS_def serve_questions_reply [THEN conjunct2] start)
  from g1 g2 b1 b2 b3 a1 [of m] a2 [of m] a3 [of m] show ?thesis
    by (intro conjI)
qed

theorem ServeDNS_answers_witness:
  "Lookup anchored_lib ascii_lib (NewMatcher anchored_lib literal_then_regex) (ToLower ascii_lib ''MyHost.'')
     = (''10.0.0.1'', True)
   \<and> Rcode (ServeDNS anchored_lib ascii_lib (\<lambda>ip. ip) (NewMatcher anchored_lib literal_then_regex)
        (query_for ''MyHost.'' TypeA)) = RcodeSuccess
   \<and> Answer (ServeDNS anchored_lib ascii_lib (\<lambda>ip. ip) (NewMatcher anchored_lib literal_then_regex)
        (query_for ''MyHost.'' TypeA))
       = [\<lparr>Hdr_Name = ''MyHost.'', Hdr_Rrtype = TypeA, Hdr_Class = ClassINET, Hdr_Ttl = 300,
           A = ''10.0.0.1''\<rparr>]
   \<and> \<not> snd (Lookup anchored_lib ascii_lib (NewMatcher anchored_lib literal_then_regex)
        (ToLower ascii_lib ''other.''))
   \<and> Rcode (ServeDNS anchored_lib ascii_lib (\<lambda>ip. ip) (NewMatcher anchored_lib literal_then_regex)
        (query_for ''other.'' TypeA)) = RcodeNameError
   \<and> Answer (ServeDNS anchored_lib ascii_lib (\<lambda>ip. ip) (NewMatcher anchored_lib literal_then_regex)
        (query_for ''other.'' TypeA)) = []
   \<and> TypeAAAA \<noteq> TypeA
   \<and> Rcode (ServeDNS anchored_lib ascii_lib (\<lambda>ip. ip) (NewMatcher anchored_lib literal_then_regex)
        (query_for ''myhost.'' TypeAAAA)) = RcodeSuccess
   \<and> Answer (ServeDNS anchored_lib ascii_lib (\<lambda>ip. ip) (NewMatcher anchored_lib literal_then_regex)
        (query_for ''myhost.'' TypeAAAA)) = []
   \<and> Rcode (ServeDNS anchored_lib ascii_lib (\<lambda>ip. ip) (NewMatcher anchored_lib literal_then_regex)
        mixed_query) = RcodeNameError
   \<and> Answer (ServeDNS anchored_lib ascii_lib (\<lambda>ip. ip) (NewMatcher anchored_lib literal_then_regex)
        mixed_query)
       = [\<lparr>Hdr_Name = ''MyHost.'', Hdr_Rrtype = TypeA, Hdr_Class = ClassINET, Hdr_Ttl = 300,
           A = ''10.0.0.1''\<rparr>]"
proof -
  let ?c = "NewMatcher anchored_lib literal_then_regex"
  let ?qa = "\<lparr>Name = ''MyHost.'', Qtype = TypeA, Qclass = ClassINET\<rparr>"
  let ?qb = "\<lparr>Name = ''other.'', Qtype = TypeA, Qclass = ClassINET\<rparr>"
  let ?qc = "\<lparr>Name = ''myhost.'', Qtype = TypeAAAA, Qclass = ClassINET\<rparr>"
  have h1: "Lookup anchored_lib ascii_lib ?c (ToLower ascii_lib ''MyHost.'') = (''10.0.0.1'', True)"
    by code_simp
  have h2: "\<not> snd (Lookup anchored_lib ascii_lib ?c (ToLower ascii_lib ''other.''))"
    by code_simp
  have h3: "TypeAAAA \<noteq> TypeA"
    by (simp add: TypeAAAA_def TypeA_def)
  have qa: "Question (query_for ''MyHost.'' TypeA) = [?qa]"
    and qb: "Question (query_for ''other.'' TypeA) = [?qb]"
    and qc: "Question (query_for ''myhost.'' TypeAAAA) = [?qc]"
    by (simp_all add: query_for_def)
  have qm: "Question mixed_query = [?qa, ?qc, ?qb]"
    by (simp add: mixed_query_def)
  have r1: "Rcode (ServeDNS anchored_lib ascii_lib (\<lambda>ip. ip) ?c (query_for ''MyHost.'' TypeA)) = RcodeSuccess
      \<and> Answer (ServeDNS anchored_lib ascii_lib (\<lambda>ip. ip) ?c (query_for ''MyHost.'' TypeA))
       = [\<lparr>Hdr_Name = ''MyHost.'', Hdr_Rrtype = TypeA, Hdr_Class = ClassINET, Hdr_Ttl = 300,
           A = ''10.0.0.1''\<rparr>]"
    using ServeDNS_answers [where R = anchored_lib and U = ascii_lib and parseIP = "\<lambda>ip. ip"
        and c = ?c and r = "query_for ''MyHost.'' TypeA" and q = ?qa and ip = "''10.0.0.1''"]
      h1 qa by simp
  have r2: "Rcode (ServeDNS anchored_lib ascii_lib (\<lambda>ip. ip) ?c (query_for ''other.'' TypeA)) = RcodeNameError
      \<and> Answer (ServeDNS anchored_lib ascii_lib (\<lambda>ip. ip) ?c (query_for ''other.'' TypeA)) = []"
    using ServeDNS_answers [where R = anchored_lib and U = ascii_lib and parseIP = "\<lambda>ip. ip"
        and c = ?c and r = "query_for ''other.'' TypeA" and q = ?qb]
      h2 qb by simp
  have r3: "Rcode (ServeDNS anchored_lib ascii_lib (\<lambda>ip. ip) ?c (query_for ''myhost.'' TypeAAAA)) = RcodeSuccess
      \<and> Answer (ServeDNS anchored_lib ascii_lib (\<lambda>ip. ip) ?c (query_for ''myhost.'' TypeAAAA)) = []"
    using ServeDNS_answers [where R = anchored_lib and U = ascii_lib and parseIP = "\<lambda>ip. ip"
        and c = ?c and r = "query_for ''myhost.'' TypeAAAA" and q = ?qc]
      h3 qc by simp
  have r4: "Rcode (ServeDNS anchored_lib ascii_lib (\<lambda>ip. ip) ?c mixed_query) = RcodeNameError
      \<and> Answer (ServeDNS anchored_lib ascii_lib (\<lambda>ip. ip) ?c mixed_query)
       = [\<lparr>Hdr_Name = ''MyHost.'', Hdr_Rrtype = TypeA, Hdr_Class = ClassINET, Hdr_Ttl = 300,
           A = ''10.0.0.1''\<rparr>]"
    using ServeDNS_answers [where R = anchored_lib and U = ascii_lib and parseIP = "\<lambda>ip. ip"
        and c = ?c and r = mixed_query]
      h1 h2 h3 qm by simp
  from h1 h2 h3 r1 r2 r3 r4 show ?thesis
    by (intro conjI) simp_all
qed

theorem ServeDNS_non_address_counterexample:
  "Qtype (hd (Question (query_for ''myhost.'' TypeAAAA))) \<noteq> TypeA
   \<and> Rcode (ServeDNS anchored_lib ascii_lib (\<lambda>ip. ip) (NewMatcher anchored_lib literal_then_regex)
        (query_for ''myhost.'' TypeAAAA)) \<noteq> RcodeNameError"
  by (simp add: ServeDNS_def query_for_def serve_question_def SetReply_def new_Msg_def
      TypeAAAA_def TypeA_def RcodeSuccess_def RcodeNameError_def)

section \<open>The server: the shared resolver file on Linux\<close>

subsection \<open>Splitting and joining lines\<close>

lemma Split_not_Nil: "Split s sep \<noteq> []"
  by (induction s) (auto split: list.splits)

lemma Join_Cons: "ls \<noteq> [] \<Longrightarrow> Join (x # ls) sep = x @ sep # Join ls sep"
  by (cases ls) simp_all

lemma Join_Split: "Join (Split s sep) sep = s"
proof (induction s)
  case Nil
  then show ?case by simp
next
  case (Cons c cs)
  show ?case
  proof (cases "c = sep")
    case True
    then show ?thesis using Cons by (simp add: Join_Cons Split_not_Nil)
  next
    case False
    obtain p ps where ps: "Split cs sep = p # ps"
      using Split_not_Nil [of cs sep] by (cases "Split cs sep") auto
    show ?thesis
    proof (cases ps)
      case Nil
      then show ?thesis using Cons ps False by simp
    next
      case (Cons a list)
      then show ?thesis using Cons.IH ps False by simp
    qed
  qed
qed

lemma Split_append: "sep \<notin> set a \<Longrightarrow> Split (a @ sep # b) sep = a # Split b sep"
  by (induction a) auto

lemma line_present_iff: "line_present U e ls = (\<exists>l\<in>set ls. TrimSpace U l = e)"
  by (induction ls) auto

subsection \<open>What a pass does to the file\<close>

text \<open>
  The line absent, or present. On Linux, in a configuration pass and in a repair pass
  whose read and write of the shared file succeed, with the managed line
  \<^verbatim>\<open>nameserver <bindIP>\<close> (a bind IP holds no newline): if no line of the file equals the
  managed line once its surrounding white space is trimmed, the pass writes the managed
  line followed by the old content, so that the managed line is the first line and
  every original line follows it verbatim and in order; if some line does, wherever it
  stands, the pass leaves the file as it is.
\<close>

theorem linux_resolver_pass:
  assumes "resolv_conf os = Some content"
    and "\<not> tee_fails os"
    and "newline \<notin> set (bindIP s)"
  shows "(\<not> line_present U (''nameserver '' @ bindIP s) (Split content newline) \<longrightarrow>
            fst (configureLinuxResolver U s os) = None
          \<and> resolv_conf (snd (snd (configureLinuxResolver U s os)))
              = Some ((''nameserver '' @ bindIP s) @ newline # content)
          \<and> resolv_conf (checkAndRestoreLinuxResolver U s os)
              = Some ((''nameserver '' @ bindIP s) @ newline # content)
          \<and> Split ((''nameserver '' @ bindIP s) @ newline # content) newline
              = (''nameserver '' @ bindIP s) # Split content newline)
       \<and> (line_present U (''nameserver '' @ bindIP s) (Split content newline) \<longrightarrow>
            fst (configureLinuxResolver U s os) = None
          \<and> resolv_conf (snd (snd (configureLinuxResolver U s os))) = Some content
          \<and> resolv_conf (checkAndRestoreLinuxResolver U s os) = Some content)"
proof -
  let ?e = "''nameserver '' @ bindIP s"
  have nl: "newline \<notin> set ?e"
    using assms(3) by simp
  have j: "Join ([?e] @ Split content newline) newline = ?e @ newline # content"
    by (simp add: Join_Cons Split_not_Nil Join_Split)
  have sp: "Split (?e @ newline # content) newline = ?e # Split content newline"
    using nl by (rule Split_append)
  show ?thesis
    using assms(1,2) j sp
    by (simp add: configureLinuxResolver_def checkAndRestoreLinuxResolver_def Let_def)
qed

theorem linux_resolver_pass_witness:
  "resolv_conf missing_conf = Some (''search lan'' @ [newline] @ ''nameserver 8.8.8.8'' @ [newline])
   \<and> \<not> tee_fails missing_conf
   \<and> newline \<notin> set (bindIP running_server)
   \<and> \<not> line_present ascii_lib (''nameserver '' @ bindIP running_server)
         (Split (''search lan'' @ [newline] @ ''nameserver 8.8.8.8'' @ [newline]) newline)
   \<and> resolv_conf (checkAndRestoreLinuxResolver ascii_lib running_server missing_conf)
       = Some (''nameserver 127.1.2.3'' @ [newline] @ ''search lan'' @ [newline]
               @ ''nameserver 8.8.8.8'' @ [newline])
   \<and> resolv_conf (snd (snd (configureLinuxResolver ascii_lib running_server missing_conf)))
       = Some (''nameserver 127.1.2.3'' @ [newline] @ ''search lan'' @ [newline]
               @ ''nameserver 8.8.8.8'' @ [newline])
   \<and> Split (''nameserver 127.1.2.3'' @ [newline] @ ''search lan'' @ [newline]
             @ ''nameserver 8.8.8.8'' @ [newline]) newline
       = [''nameserver 127.1.2.3'', ''search lan'', ''nameserver 8.8.8.8'', '''']"
proof -
  let ?content = "''search lan'' @ [newline] @ ''nameserver 8.8.8.8'' @ [newline]"
  have h1: "resolv_conf missing_conf = Some ?content"
    by (simp add: missing_conf_def)
  have h2: "\<not> tee_fails missing_conf"
    by (simp add: missing_conf_def)
  have h3: "newline \<notin> set (bindIP running_server)"
    by (simp add: running_server_def)
  have h4: "\<not> line_present ascii_lib (''nameserver '' @ bindIP running_server) (Split ?content newline)"
    by code_simp
  have ip: "bindIP running_server = ''127.1.2.3''"
    by (simp add: running_server_def)
  have sp: "Split ?content newline = [''search lan'', ''nameserver 8.8.8.8'', '''']"
    by simp
  show ?thesis
    using linux_resolver_pass [OF h1 h2 h3, of ascii_lib] h1 h2 h3 h4 ip sp
    by simp
qed

text \<open>
  Claim C2. Step 2 of a pass on the platform with one shared ordered file is to ensure
  that the managed nameserver line is first, inserting it if displaced. The code does
  not: with \<^verbatim>\<open>nameserver 8.8.8.8\<close> as the first line of the file and the managed line
  \<^verbatim>\<open>nameserver 127.1.2.3\<close> as the second, the test for presence succeeds, and the
  configuration pass and the repair pass both leave the file as it is, its first line
  being the other nameserver.
\<close>

theorem linux_resolver_displaced_stays_second:
  "line_present ascii_lib (''nameserver '' @ bindIP running_server)
     (Split (''nameserver 8.8.8.8'' @ [newline] @ ''nameserver 127.1.2.3'' @ [newline]) newline)
   \<and> resolv_conf (checkAndRestoreLinuxResolver ascii_lib running_server displaced_conf)
     = Some (''nameserver 8.8.8.8'' @ [newline] @ ''nameserver 127.1.2.3'' @ [newline])
   \<and> resolv_conf (snd (snd (configureLinuxResolver ascii_lib running_server displaced_conf)))
     = Some (''nameserver 8.8.8.8'' @ [newline] @ ''nameserver 127.1.2.3'' @ [newline])
   \<and> Split (''nameserver 8.8.8.8'' @ [newline] @ ''nameserver 127.1.2.3'' @ [newline]) newline
     = [''nameserver 8.8.8.8'', ''nameserver 127.1.2.3'', '''']
   \<and> hd (Split (''nameserver 8.8.8.8'' @ [newline] @ ''nameserver 127.1.2.3'' @ [newline]) newline)
     \<noteq> ''nameserver '' @ bindIP running_server"
  by code_simp

section \<open>The server: allocation of the loopback IP\<close>

lemma bind_loop_Inr:
  "bind_loop E n i = Inr ip \<Longrightarrow>
     ip \<noteq> ''127.0.0.1''
     \<and> (\<exists>j. i \<le> j \<and> j < n \<and> ip = candidate E j
            \<and> \<not> isIPInUse (goos E) (probe_output E j) ip
            \<and> addLoopbackAlias (goos E) (alias_fails E j) ip = None)"
proof (induction E n i rule: bind_loop.induct)
  case (1 E maxAttempts i)
  show ?case
  proof (cases "i < maxAttempts")
    case False
    with "1.prems" show ?thesis by (simp add: bind_loop.simps [of E maxAttempts i])
  next
    case True
    note lt = this
    show ?thesis
    proof (cases "candidate E i = ''127.0.0.1''")
      case True
      with lt "1.prems" have "bind_loop E maxAttempts (Suc i) = Inr ip"
        by (simp add: bind_loop.simps [of E maxAttempts i])
      with "1.IH"(1) [OF lt refl True] show ?thesis
        by (meson Suc_leD)
    next
      case False
      note ne = this
      show ?thesis
      proof (cases "isIPInUse (goos E) (probe_output E i) (candidate E i)")
        case True
        with lt ne "1.prems" have "bind_loop E maxAttempts (Suc i) = Inr ip"
          by (simp add: bind_loop.simps [of E maxAttempts i])
        with "1.IH"(2) [OF lt refl ne True] show ?thesis
          by (meson Suc_leD)
      next
        case False
        note free = this
        show ?thesis
        proof (cases "addLoopbackAlias (goos E) (alias_fails E i) (candidate E i)")
          case None
          with lt ne free "1.prems" have "ip = candidate E i"
            by (simp add: bind_loop.simps [of E maxAttempts i])
          with lt ne free None show ?thesis by auto
        next
          case (Some err)
          with lt ne free "1.prems" have "bind_loop E maxAttempts (Suc i) = Inr ip"
            by (simp add: bind_loop.simps [of E maxAttempts i])
          with "1.IH"(3) [OF lt refl ne free Some] show ?thesis
            by (meson Suc_leD)
        qed
      qed
    qed
  qed
qed

text \<open>
  Claim C9. Whenever the allocation loop returns an IP, that IP is not \<^verbatim>\<open>127.0.0.1\<close>,
  it is the candidate of one of the 100 attempts, the probe of that attempt did not
  report it in use and the alias command of that attempt succeeded. A candidate that is
  \<^verbatim>\<open>127.0.0.1\<close> or that the probe reports in use is skipped: the loop goes on with the
  next attempt and its new candidate. When the probe prints the same at every attempt
  (nothing else changes the interface meanwhile), no attempt at all reported the
  returned IP in use.
\<close>

theorem bindLoopbackIP_safe:
  "(bindLoopbackIP E = Inr ip \<longrightarrow>
      ip \<noteq> ''127.0.0.1''
      \<and> (\<exists>j. j < 100 \<and> ip = candidate E j
             \<and> \<not> isIPInUse (goos E) (probe_output E j) ip
             \<and> addLoopbackAlias (goos E) (alias_fails E j) ip = None))
   \<and> (i < n \<and> (candidate E i = ''127.0.0.1''
                 \<or> isIPInUse (goos E) (probe_output E i) (candidate E i))
        \<longrightarrow> bind_loop E n i = bind_loop E n (Suc i))
   \<and> (bindLoopbackIP E = Inr ip \<and> (\<forall>k. probe_output E k = probe_output E 0)
        \<longrightarrow> (\<forall>k. \<not> isIPInUse (goos E) (probe_output E k) ip))"
proof -
  have a: "bindLoopbackIP E = Inr ip \<longrightarrow>
      ip \<noteq> ''127.0.0.1''
      \<and> (\<exists>j. j < 100 \<and> ip = candidate E j
             \<and> \<not> isIPInUse (goos E) (probe_output E j) ip
             \<and> addLoopbackAlias (goos E) (alias_fails E j) ip = None)"
    unfolding bindLoopbackIP_def by (blast dest: bind_loop_Inr)
  have b: "i < n \<and> (candidate E i = ''127.0.0.1''
                 \<or> isIPInUse (goos E) (probe_output E i) (candidate E i))
        \<longrightarrow> bind_loop E n i = bind_loop E n (Suc i)"
    by (auto simp add: bind_loop.simps [of E n i] Let_def)
  have c: "bindLoopbackIP E = Inr ip \<and> (\<forall>k. probe_output E k = probe_output E 0)
        \<longrightarrow> (\<forall>k. \<not> isIPInUse (goos E) (probe_output E k) ip)"
  proof (intro impI allI)
    fix k
    assume h: "bindLoopbackIP E = Inr ip \<and> (\<forall>k. probe_output E k = probe_output E 0)"
    with a obtain j where "\<not> isIPInUse (goos E) (probe_output E j) ip"
      by blast
    moreover from h have "probe_output E j = probe_output E k"
      by metis
    ultimately show "\<not> isIPInUse (goos E) (probe_output E k) ip"
      by simp
  qed
  from a b c show ?thesis
    by (intro conjI)
qed

theorem bindLoopbackIP_safe_witness:
  "bindLoopbackIP example_env = Inr ''127.10.20.30''
   \<and> candidate example_env 0 = ''127.0.0.1''
   \<and> candidate example_env 1 = ''127.0.0.2''
   \<and> isIPInUse (goos example_env) (probe_output example_env 1) ''127.0.0.2''
   \<and> bind_loop example_env 100 0 = bind_loop example_env 100 1
   \<and> bind_loop example_env 100 1 = bind_loop example_env 100 2
   \<and> probe_output example_env 5 = probe_output example_env 0
   \<and> \<not> isIPInUse (goos example_env) (probe_output example_env 5) ''127.10.20.30''
   \<and> (\<exists>j. j < 100 \<and> ''127.10.20.30'' = candidate example_env j
          \<and> \<not> isIPInUse (goos example_env) (probe_output example_env j) ''127.10.20.30''
          \<and> addLoopbackAlias (goos example_env) (alias_fails example_env j) ''127.10.20.30'' = None)"
proof -
  have h: "bindLoopbackIP example_env = Inr ''127.10.20.30''"
    by code_simp
  have c0: "candidate example_env 0 = ''127.0.0.1''"
    by code_simp
  have c1: "candidate example_env 1 = ''127.0.0.2''"
    by code_simp
  have u1: "isIPInUse (goos example_env) (probe_output example_env 1) ''127.0.0.2''"
    by code_simp
  have s0: "bind_loop example_env 100 0 = bind_loop example_env 100 (Suc 0)"
    using bindLoopbackIP_safe [of example_env _ 0 100] c0 by simp
  have s1: "bind_loop example_env 100 1 = bind_loop example_env 100 (Suc 1)"
    using bindLoopbackIP_safe [of example_env _ 1 100] c1 u1 by simp
  have e: "\<exists>j. j < 100 \<and> ''127.10.20.30'' = candidate example_env j
          \<and> \<not> isIPInUse (goos example_env) (probe_output example_env j) ''127.10.20.30''
          \<and> addLoopbackAlias (goos example_env) (alias_fails example_env j) ''127.10.20.30'' = None"
    using bindLoopbackIP_safe [of example_env "''127.10.20.30''"] h by blast
  have same: "\<forall>k. probe_output example_env k = probe_output example_env 0"
    by (simp add: example_env_def)
  have never: "\<not> isIPInUse (goos example_env) (probe_output example_env 5) ''127.10.20.30''"
    using bindLoopbackIP_safe [of example_env "''127.10.20.30''"] h same by blast
  from h c0 c1 u1 s0 s1 e same never show ?thesis
    by (simp add: numeral_2_eq_2)
qed

section \<open>The resolver manager: reconciliation of the hint files\<close>

subsection \<open>What the two loops do\<close>

lemma filePath_managed [simp]: "filePath (m\<lparr>managedDomains := x\<rparr>) = filePath m"
  by (rule ext) (simp add: filePath_def)

lemma expected_managed [simp]: "expectedContent (m\<lparr>managedDomains := x\<rparr>) = expectedContent m"
  by (simp add: expectedContent_def)

lemma create_step:
  "createResolverFile F m os s =
     (if files os (filePath m s) = Some (expectedContent m) then (None, os)
      else if tee_error F (filePath m s) then (Some (WriteFailed (filePath m s)), os)
      else (None, os\<lparr>files := (files os)(filePath m s \<mapsto> expectedContent m),
                      events := events os @ [Wrote (filePath m s) (expectedContent m)]\<rparr>))"
  by (simp add: createResolverFile_def)

lemma create_ok_step:
  "createResolverFile F m os s = (r, os1) \<Longrightarrow> create_ok F m os1 t = create_ok F m os t"
  by (auto simp add: create_step create_ok_def split: if_splits)

lemma create_result:
  "createResolverFile F m os s = (r, os1) \<Longrightarrow> (r = None) = create_ok F m os s"
  by (auto simp add: create_step create_ok_def split: if_splits)

lemma create_loop_newDomains:
  "create_loop F m os sfxs nd ch = (os', nd', ch') \<Longrightarrow>
     set nd' = set nd \<union> {s \<in> set sfxs. create_ok F m os s}"
proof (induction sfxs arbitrary: os nd ch)
  case Nil
  then show ?case by simp
next
  case (Cons s rest)
  obtain r os1 where st: "createResolverFile F m os s = (r, os1)"
    by (cases "createResolverFile F m os s")
  have ok: "\<And>t. create_ok F m os1 t = create_ok F m os t"
    using st by (rule create_ok_step)
  show ?case
  proof (cases r)
    case None
    with st Cons.prems have "create_loop F m os1 rest (map_insert s nd) (if s \<notin> set (managedDomains m) then True else ch) = (os', nd', ch')"
      by (simp add: Let_def)
    from Cons.IH [OF this] have "set nd' = set (map_insert s nd) \<union> {t \<in> set rest. create_ok F m os1 t}" .
    moreover have "create_ok F m os s" using st None create_result by blast
    ultimately show ?thesis by (auto simp add: ok map_insert_def)
  next
    case (Some err)
    with st Cons.prems have "create_loop F m os1 rest nd ch = (os', nd', ch')"
      by (simp add: Let_def)
    from Cons.IH [OF this] have "set nd' = set nd \<union> {t \<in> set rest. create_ok F m os1 t}" .
    moreover have "\<not> create_ok F m os s" using st Some create_result by fastforce
    ultimately show ?thesis by (auto simp add: ok)
  qed
qed

lemma create_loop_changes:
  "create_loop F m os sfxs nd ch = (os', nd', ch') \<Longrightarrow>
     ch' = (ch \<or> (\<exists>s\<in>set sfxs. create_ok F m os s \<and> s \<notin> set (managedDomains m)))"
proof (induction sfxs arbitrary: os nd ch)
  case Nil
  then show ?case by simp
next
  case (Cons s rest)
  obtain r os1 where st: "createResolverFile F m os s = (r, os1)"
    by (cases "createResolverFile F m os s")
  have ok: "\<And>t. create_ok F m os1 t = create_ok F m os t"
    using st by (rule create_ok_step)
  show ?case
  proof (cases r)
    case None
    with st Cons.prems have "create_loop F m os1 rest (map_insert s nd) (if s \<notin> set (managedDomains m) then True else ch) = (os', nd', ch')"
      by (simp add: Let_def)
    from Cons.IH [OF this] have "ch' = ((if s \<notin> set (managedDomains m) then True else ch) \<or> (\<exists>t\<in>set rest. create_ok F m os1 t \<and> t \<notin> set (managedDomains m)))" .
    moreover have "create_ok F m os s" using st None create_result by blast
    ultimately show ?thesis by (auto simp add: ok)
  next
    case (Some err)
    with st Cons.prems have "create_loop F m os1 rest nd ch = (os', nd', ch')"
      by (simp add: Let_def)
    from Cons.IH [OF this] have "ch' = (ch \<or> (\<exists>t\<in>set rest. create_ok F m os1 t \<and> t \<notin> set (managedDomains m)))" .
    moreover have "\<not> create_ok F m os s" using st Some create_result by fastforce
    ultimately show ?thesis by (auto simp add: ok)
  qed
qed

lemma create_loop_files:
  "create_loop F m os sfxs nd ch = (os', nd', ch') \<Longrightarrow>
     files os' p =
       (if (\<exists>s\<in>set sfxs. filePath m s = p) \<and> \<not> tee_error F p \<and> files os p \<noteq> Some (expectedContent m)
        then Some (expectedContent m) else files os p)"
proof (induction sfxs arbitrary: os nd ch)
  case Nil
  then show ?case by simp
next
  case (Cons s rest)
  obtain r os1 where st: "createResolverFile F m os s = (r, os1)"
    by (cases "createResolverFile F m os s")
  obtain nd1 ch1 where rec: "create_loop F m os1 rest nd1 ch1 = (os', nd', ch')"
    using st Cons.prems by (cases r) (simp_all add: Let_def)
  have f1: "files os1 = (if files os (filePath m s) \<noteq> Some (expectedContent m) \<and> \<not> tee_error F (filePath m s)
                then (files os)(filePath m s \<mapsto> expectedContent m) else files os)"
    using st by (auto simp add: create_step split: if_splits)
  show ?case
    using Cons.IH [OF rec] by (auto simp add: f1)
qed

lemma create_loop_events:
  "create_loop F m os sfxs nd ch = (os', nd', ch') \<Longrightarrow>
     dir_exists os' = dir_exists os
     \<and> (\<exists>ws. events os' = events os @ ws
          \<and> (\<forall>e\<in>set ws. \<exists>s\<in>set sfxs. e = Wrote (filePath m s) (expectedContent m)
                \<and> \<not> tee_error F (filePath m s)))"
proof (induction sfxs arbitrary: os nd ch)
  case Nil
  then show ?case by simp
next
  case (Cons s rest)
  obtain r os1 where st: "createResolverFile F m os s = (r, os1)"
    by (cases "createResolverFile F m os s")
  obtain nd1 ch1 where rec: "create_loop F m os1 rest nd1 ch1 = (os', nd', ch')"
    using st Cons.prems by (cases r) (simp_all add: Let_def)
  from Cons.IH [OF rec] obtain ws where ws: "dir_exists os' = dir_exists os1"
      "events os' = events os1 @ ws"
      "\<forall>e\<in>set ws. \<exists>t\<in>set rest. e = Wrote (filePath m t) (expectedContent m) \<and> \<not> tee_error F (filePath m t)"
    by blast
  have "os1 = os \<or> (\<not> tee_error F (filePath m s) \<and> dir_exists os1 = dir_exists os
          \<and> events os1 = events os @ [Wrote (filePath m s) (expectedContent m)])"
    using st by (auto simp add: create_step split: if_splits)
  then show ?case
  proof
    assume "os1 = os"
    with ws show ?thesis by auto
  next
    assume a: "\<not> tee_error F (filePath m s) \<and> dir_exists os1 = dir_exists os
          \<and> events os1 = events os @ [Wrote (filePath m s) (expectedContent m)]"
    let ?w = "Wrote (filePath m s) (expectedContent m)"
    have "events os' = events os @ (?w # ws)" using a ws(2) by simp
    moreover have "\<forall>e\<in>set (?w # ws). \<exists>t\<in>set (s # rest). e = Wrote (filePath m t) (expectedContent m) \<and> \<not> tee_error F (filePath m t)"
      using a ws(3) by auto
    ultimately show ?thesis using a ws(1) by blast
  qed
qed

lemma create_loop_noop:
  "\<forall>s\<in>set sfxs. files os (filePath m s) = Some (expectedContent m) \<or> tee_error F (filePath m s) \<Longrightarrow>
     fst (create_loop F m os sfxs nd ch) = os"
  by (induction sfxs arbitrary: nd ch) (auto simp add: create_step Let_def)

lemma remove_step:
  "removeResolverFile F m os d =
     (if rm_error F (filePath m d) then (Some (RemoveFailed (filePath m d)), m, os)
      else (None, m\<lparr>managedDomains := removeAll d (managedDomains m)\<rparr>,
            os\<lparr>files := (files os)(filePath m d := None),
               events := events os @ [Removed (filePath m d)]\<rparr>))"
  by (simp add: removeResolverFile_def)

lemma remove_loop_result:
  "remove_loop F m os ds nd ch = (m', os', ch') \<Longrightarrow>
     filePath m' = filePath m
     \<and> ch' = (ch \<or> (\<exists>d\<in>set ds. d \<notin> set nd \<and> \<not> rm_error F (filePath m d)))
     \<and> dir_exists os' = dir_exists os
     \<and> events os' = events os @ map (\<lambda>d. Removed (filePath m d))
                                   (filter (\<lambda>d. d \<notin> set nd \<and> \<not> rm_error F (filePath m d)) ds)
     \<and> (\<forall>p. files os' p =
           (if \<exists>d\<in>set ds. d \<notin> set nd \<and> filePath m d = p \<and> \<not> rm_error F p then None
            else files os p))"
proof (induction ds arbitrary: m os ch)
  case Nil
  then show ?case by simp
next
  case (Cons d rest)
  show ?case
  proof (cases "d \<in> set nd")
    case True
    with Cons.prems have "remove_loop F m os rest nd ch = (m', os', ch')"
      by simp
    from Cons.IH [OF this] True show ?thesis by auto
  next
    case False
    note notin = this
    show ?thesis
    proof (cases "rm_error F (filePath m d)")
      case True
      with notin Cons.prems have "remove_loop F m os rest nd ch = (m', os', ch')"
        by (simp add: remove_step)
      from Cons.IH [OF this] True notin show ?thesis by auto
    next
      case False
      let ?m1 = "m\<lparr>managedDomains := removeAll d (managedDomains m)\<rparr>"
      let ?os1 = "os\<lparr>files := (files os)(filePath m d := None),
                     events := events os @ [Removed (filePath m d)]\<rparr>"
      from False notin Cons.prems have "remove_loop F ?m1 ?os1 rest nd True = (m', os', ch')"
        by (simp add: remove_step)
      from Cons.IH [OF this] False notin show ?thesis by auto
    qed
  qed
qed

lemma remove_loop_noop:
  "\<forall>d\<in>set ds. d \<in> set nd \<Longrightarrow> remove_loop F m os ds nd ch = (m, os, ch)"
  by (induction ds) auto

lemma ensure_step:
  "ensureResolverDir F m os =
     (if dir_exists os then (None, os)
      else if mkdir_error F then (Some (MkdirFailed (resolverFilesDir m)), os)
      else (None, os\<lparr>dir_exists := True, events := events os @ [MadeDir (resolverFilesDir m)]\<rparr>))"
  by (simp add: ensureResolverDir_def)

text \<open>One pass, taken apart: the guards, then the two loops, then the flush.\<close>

lemma update_guarded:
  "sfxs = [] \<or> (\<not> dir_exists os \<and> mkdir_error F) \<Longrightarrow>
     snd (update_with_suffixes F m os sfxs) = (m, os)"
  by (auto simp add: update_with_suffixes_def ensure_step)

lemma update_unfold:
  assumes "sfxs \<noteq> []" and "dir_exists os \<or> \<not> mkdir_error F"
  obtains os1 os2 nd ch m3 os3 ch3 where
    "ensureResolverDir F m os = (None, os1)"
    "files os1 = files os"
    "events os1 = events os @ (if dir_exists os then [] else [MadeDir (resolverFilesDir m)])"
    "dir_exists os1"
    "create_loop F m os1 sfxs [] False = (os2, nd, ch)"
    "remove_loop F m os2 (managedDomains m) nd ch = (m3, os3, ch3)"
    "update_with_suffixes F m os sfxs =
       (None, m3\<lparr>managedDomains := nd\<rparr>, if ch3 then flushDNSCache os3 else os3)"
proof -
  have "\<exists>os1. ensureResolverDir F m os = (None, os1)"
    using assms(2) by (auto simp add: ensure_step)
  then obtain os1 where e: "ensureResolverDir F m os = (None, os1)" ..
  have f: "files os1 = files os" "dir_exists os1"
    "events os1 = events os @ (if dir_exists os then [] else [MadeDir (resolverFilesDir m)])"
    using e assms(2) by (auto simp add: ensure_step split: if_splits)
  obtain os2 nd ch where c: "create_loop F m os1 sfxs [] False = (os2, nd, ch)"
    by (cases "create_loop F m os1 sfxs [] False")
  obtain m3 os3 ch3 where r: "remove_loop F m os2 (managedDomains m) nd ch = (m3, os3, ch3)"
    by (cases "remove_loop F m os2 (managedDomains m) nd ch")
  have "update_with_suffixes F m os sfxs =
       (None, m3\<lparr>managedDomains := nd\<rparr>, if ch3 then flushDNSCache os3 else os3)"
    using assms(1) e c r by (simp add: update_with_suffixes_def Let_def)
  with e f c r show ?thesis
    using that by blast
qed

subsection \<open>What a pass does\<close>

lemma create_ok_files: "files os1 = files os \<Longrightarrow> create_ok F m os1 s = create_ok F m os s"
  by (simp add: create_ok_def)



lemma remove_loop_expected:
  "remove_loop F m os ds nd ch = (m', os', ch') \<Longrightarrow> expectedContent m' = expectedContent m"
proof (induction ds arbitrary: m os ch)
  case Nil
  then show ?case by simp
next
  case (Cons d rest)
  show ?case
  proof (cases "d \<notin> set nd \<and> \<not> rm_error F (filePath m d)")
    case True
    with Cons.prems have "remove_loop F (m\<lparr>managedDomains := removeAll d (managedDomains m)\<rparr>)
        (os\<lparr>files := (files os)(filePath m d := None),
            events := events os @ [Removed (filePath m d)]\<rparr>) rest nd True = (m', os', ch')"
      by (simp add: remove_step)
    from Cons.IH [OF this] show ?thesis by simp
  next
    case False
    with Cons.prems have "remove_loop F m os rest nd ch = (m', os', ch')"
      by (auto simp add: remove_step split: if_splits)
    from Cons.IH [OF this] show ?thesis .
  qed
qed

lemma pass_events_append: "events os' = events os @ evs \<Longrightarrow> pass_events os os' = evs"
  by (simp add: pass_events_def)

lemma update_removes:
  assumes "sfxs \<noteq> []" and "dir_exists os \<or> \<not> mkdir_error F"
    and "d \<in> set (managedDomains m)" and "d \<notin> set sfxs"
  shows "d \<notin> set (managedDomains (fst (snd (update_with_suffixes F m os sfxs))))
       \<and> (\<not> rm_error F (filePath m d) \<longrightarrow>
            files (snd (snd (update_with_suffixes F m os sfxs))) (filePath m d) = None
          \<and> Removed (filePath m d) \<in> set (pass_events os (snd (snd (update_with_suffixes F m os sfxs)))))"
proof -
  from assms(1,2) obtain os1 os2 nd ch m3 os3 ch3 where u:
    "events os1 = events os @ (if dir_exists os then [] else [MadeDir (resolverFilesDir m)])"
    "create_loop F m os1 sfxs [] False = (os2, nd, ch)"
    "remove_loop F m os2 (managedDomains m) nd ch = (m3, os3, ch3)"
    "update_with_suffixes F m os sfxs =
       (None, m3\<lparr>managedDomains := nd\<rparr>, if ch3 then flushDNSCache os3 else os3)"
    by (rule update_unfold)
  have nd: "d \<notin> set nd"
    using create_loop_newDomains [OF u(2)] assms(4) by simp
  from create_loop_events [OF u(2)] obtain ws where ws: "events os2 = events os1 @ ws"
    by blast
  let ?rs = "map (\<lambda>d. Removed (filePath m d))
               (filter (\<lambda>d. d \<notin> set nd \<and> \<not> rm_error F (filePath m d)) (managedDomains m))"
  have rs: "events os3 = events os2 @ ?rs"
    and fl: "\<And>p. files os3 p =
           (if \<exists>d\<in>set (managedDomains m). d \<notin> set nd \<and> filePath m d = p \<and> \<not> rm_error F p then None
            else files os2 p)"
    using remove_loop_result [OF u(3)] by simp_all
  let ?os' = "snd (snd (update_with_suffixes F m os sfxs))"
  have files': "files ?os' = files os3"
    using u(4) by (simp add: flushDNSCache_def)
  have "events ?os' = events os
          @ ((if dir_exists os then [] else [MadeDir (resolverFilesDir m)]) @ ws @ ?rs
             @ (if ch3 then [Flushed] else []))"
    using u(1,4) ws rs by (simp add: flushDNSCache_def)
  then have pe: "pass_events os ?os' = (if dir_exists os then [] else [MadeDir (resolverFilesDir m)]) @ ws @ ?rs
             @ (if ch3 then [Flushed] else [])"
    by (rule pass_events_append)
  have a: "d \<notin> set (managedDomains (fst (snd (update_with_suffixes F m os sfxs))))"
    using u(4) nd by simp
  have b: "\<not> rm_error F (filePath m d) \<longrightarrow>
            files ?os' (filePath m d) = None \<and> Removed (filePath m d) \<in> set (pass_events os ?os')"
  proof
    assume ok: "\<not> rm_error F (filePath m d)"
    have "files os3 (filePath m d) = None"
      using fl [of "filePath m d"] assms(3) nd ok by auto
    moreover have "Removed (filePath m d) \<in> set ?rs"
      using assms(3) nd ok by auto
    ultimately show "files ?os' (filePath m d) = None \<and> Removed (filePath m d) \<in> set (pass_events os ?os')"
      using files' pe by simp
  qed
  from a b show ?thesis ..
qed

lemma update_example:
  assumes "managedDomains m = [a, b] \<or> managedDomains m = [b, a]"
    and "sfxs = [b, c] \<or> sfxs = [c, b]"
    and "filePath m a \<noteq> filePath m b" and "filePath m a \<noteq> filePath m c"
    and "filePath m b \<noteq> filePath m c"
    and "dir_exists os"
    and "files os (filePath m b) = Some (expectedContent m)"
    and "files os (filePath m c) \<noteq> Some (expectedContent m)"
    and "\<not> tee_error F (filePath m c)" and "\<not> rm_error F (filePath m a)"
  shows "pass_events os (snd (snd (update_with_suffixes F m os sfxs)))
           = [Wrote (filePath m c) (expectedContent m), Removed (filePath m a), Flushed]
       \<and> set (managedDomains (fst (snd (update_with_suffixes F m os sfxs)))) = {b, c}
       \<and> files (snd (snd (update_with_suffixes F m os sfxs)))
           = (files os)(filePath m c \<mapsto> expectedContent m, filePath m a := None)"
proof -
  have ne: "a \<noteq> b" "a \<noteq> c" "b \<noteq> c"
    using assms(3,4,5) by auto
  show ?thesis
    using assms ne
    by (elim disjE)
      (simp_all add: update_with_suffixes_def ensure_step create_step remove_step Let_def
        map_insert_def flushDNSCache_def pass_events_def insert_commute)
qed

lemma update_twice:
  assumes inj: "inj_on (filePath m) (set (managedDomains m) \<union> set sfxs)"
    and perm: "set sfxs' = set sfxs"
  shows "snd (snd (update_with_suffixes F (fst (snd (update_with_suffixes F m os sfxs)))
                     (snd (snd (update_with_suffixes F m os sfxs))) sfxs'))
           = snd (snd (update_with_suffixes F m os sfxs))
       \<and> set (managedDomains (fst (snd (update_with_suffixes F (fst (snd (update_with_suffixes F m os sfxs)))
                     (snd (snd (update_with_suffixes F m os sfxs))) sfxs'))))
           = set (managedDomains (fst (snd (update_with_suffixes F m os sfxs))))"
proof (cases "sfxs = [] \<or> (\<not> dir_exists os \<and> mkdir_error F)")
  case True
  then have one: "snd (update_with_suffixes F m os sfxs) = (m, os)"
    by (rule update_guarded)
  from True perm have "sfxs' = [] \<or> (\<not> dir_exists os \<and> mkdir_error F)"
    by auto
  then have "snd (update_with_suffixes F m os sfxs') = (m, os)"
    by (rule update_guarded)
  with one show ?thesis by simp
next
  case False
  then have g: "sfxs \<noteq> []" "dir_exists os \<or> \<not> mkdir_error F" by auto
  from g obtain os1 os2 nd ch m3 os3 ch3 where u:
    "files os1 = files os"
    "dir_exists os1"
    "create_loop F m os1 sfxs [] False = (os2, nd, ch)"
    "remove_loop F m os2 (managedDomains m) nd ch = (m3, os3, ch3)"
    "update_with_suffixes F m os sfxs =
       (None, m3\<lparr>managedDomains := nd\<rparr>, if ch3 then flushDNSCache os3 else os3)"
    by (rule update_unfold)
  define M where "M = m3\<lparr>managedDomains := nd\<rparr>"
  define os\<^sub>1 where "os\<^sub>1 = (if ch3 then flushDNSCache os3 else os3)"
  have one: "update_with_suffixes F m os sfxs = (None, M, os\<^sub>1)"
    using u(5) by (simp add: M_def os\<^sub>1_def)
  have mM: "managedDomains M = nd"
    by (simp add: M_def)
  let ?x = "expectedContent m"
  have ok1: "\<And>s. create_ok F m os1 s = create_ok F m os s"
    using u(1) by (rule create_ok_files)
  have nd: "set nd = {s \<in> set sfxs. create_ok F m os s}"
    using create_loop_newDomains [OF u(3)] by (simp add: ok1)
  have f2: "\<And>p. files os2 p =
       (if (\<exists>s\<in>set sfxs. filePath m s = p) \<and> \<not> tee_error F p \<and> files os p \<noteq> Some ?x
        then Some ?x else files os p)"
    using create_loop_files [OF u(3)] u(1) by simp
  have d2: "dir_exists os2"
    using create_loop_events [OF u(3)] u(2) by simp
  have pM: "filePath M = filePath m"
    and d3: "dir_exists os3"
    and f3: "\<And>p. files os3 p =
           (if \<exists>d\<in>set (managedDomains m). d \<notin> set nd \<and> filePath m d = p \<and> \<not> rm_error F p then None
            else files os2 p)"
    using remove_loop_result [OF u(4)] d2 by (simp_all add: M_def)
  have xM: "expectedContent M = ?x"
    using remove_loop_expected [OF u(4)] by (simp add: M_def)
  have fO: "files os\<^sub>1 = files os3" and dO: "dir_exists os\<^sub>1"
    using d3 by (simp_all add: flushDNSCache_def os\<^sub>1_def)
  have kept: "files os3 (filePath m s) = files os2 (filePath m s)" if "s \<in> set nd" for s
  proof -
    have "\<not> (\<exists>d\<in>set (managedDomains m). d \<notin> set nd \<and> filePath m d = filePath m s)"
    proof
      assume "\<exists>d\<in>set (managedDomains m). d \<notin> set nd \<and> filePath m d = filePath m s"
      then obtain d where d: "d \<in> set (managedDomains m)" "d \<notin> set nd" "filePath m d = filePath m s"
        by blast
      from that nd have "s \<in> set sfxs" by simp
      with d(1,3) inj have "d = s"
        by (auto dest: inj_onD)
      with d(2) that show False by simp
    qed
    then show ?thesis using f3 [of "filePath m s"] by auto
  qed
  have okO: "create_ok F M os\<^sub>1 s = create_ok F m os s" if "s \<in> set sfxs" for s
  proof (cases "tee_error F (filePath m s)")
    case False
    then show ?thesis by (simp add: create_ok_def pM)
  next
    case True
    show ?thesis
    proof (cases "files os (filePath m s) = Some ?x")
      case yes: True
      then have "s \<in> set nd" using that nd by (simp add: create_ok_def)
      then have "files os3 (filePath m s) = files os2 (filePath m s)" by (rule kept)
      then show ?thesis using yes f2 [of "filePath m s"] True
        by (simp add: create_ok_def pM xM fO)
    next
      case no: False
      then have "files os2 (filePath m s) \<noteq> Some ?x"
        using f2 [of "filePath m s"] True by simp
      then have "files os3 (filePath m s) \<noteq> Some ?x"
        using f3 [of "filePath m s"] by auto
      then show ?thesis using no True
        by (simp add: create_ok_def pM xM fO)
    qed
  qed
  have settled: "\<forall>s\<in>set sfxs'. files os\<^sub>1 (filePath M s) = Some (expectedContent M)
                   \<or> tee_error F (filePath M s)"
  proof
    fix s assume "s \<in> set sfxs'"
    then have s: "s \<in> set sfxs" using perm by simp
    show "files os\<^sub>1 (filePath M s) = Some (expectedContent M) \<or> tee_error F (filePath M s)"
    proof (cases "tee_error F (filePath m s)")
      case True
      then show ?thesis by (simp add: pM)
    next
      case False
      then have "s \<in> set nd" using s nd by (simp add: create_ok_def)
      then have "files os3 (filePath m s) = files os2 (filePath m s)" by (rule kept)
      moreover have "files os2 (filePath m s) = Some ?x"
        using f2 [of "filePath m s"] False s by auto
      ultimately show ?thesis by (simp add: pM xM fO)
    qed
  qed
  have g': "sfxs' \<noteq> []" "dir_exists os\<^sub>1 \<or> \<not> mkdir_error F"
    using g(1) perm dO by auto
  from g' obtain os1' os2' nd' ch' m3' os3' ch3' where v:
    "ensureResolverDir F M os\<^sub>1 = (None, os1')"
    "create_loop F M os1' sfxs' [] False = (os2', nd', ch')"
    "remove_loop F M os2' (managedDomains M) nd' ch' = (m3', os3', ch3')"
    "update_with_suffixes F M os\<^sub>1 sfxs' =
       (None, m3'\<lparr>managedDomains := nd'\<rparr>, if ch3' then flushDNSCache os3' else os3')"
    by (rule update_unfold)
  have e1: "os1' = os\<^sub>1"
    using v(1) dO by (simp add: ensure_step)
  have e2: "os2' = os\<^sub>1"
    using create_loop_noop [OF settled, of "[]" False] v(2) e1 by simp
  have nd': "set nd' = set nd"
    using create_loop_newDomains [OF v(2)] e1 perm nd okO by auto
  have ch': "ch' = False"
    using create_loop_changes [OF v(2)] e1 perm nd okO mM by auto
  have "remove_loop F M os\<^sub>1 (managedDomains M) nd' False = (M, os\<^sub>1, False)"
    using nd' mM by (intro remove_loop_noop) simp
  with v(3) e2 ch' have e3: "m3' = M" "os3' = os\<^sub>1" "ch3' = False"
    by simp_all
  have two: "update_with_suffixes F M os\<^sub>1 sfxs' = (None, M\<lparr>managedDomains := nd'\<rparr>, os\<^sub>1)"
    using v(4) e3 by simp
  show ?thesis
    unfolding one using two nd' mM by simp
qed

subsection \<open>When the DNS cache is flushed\<close>




subsection \<open>Suffixes that leave the record set\<close>

text \<open>
  Claim C4, as amended. For every pass that gets past its guards (the new records give
  at least one suffix, the resolver directory is there or can be made), whatever the
  order of the suffixes: every previously-managed suffix absent from the new suffixes
  leaves the managed set, and when \<^verbatim>\<open>rm\<close> succeeds on its path its hint file is gone
  afterwards and its removal is among the effects of the pass. In particular, with
  managed suffixes \<open>{a, b}\<close> and new suffixes \<open>{b, c}\<close> in either order, where \<open>a\<close>, \<open>b\<close>
  and \<open>c\<close> name three different files, the hint of \<open>b\<close> is correct on disk, that of \<open>c\<close>
  is not, and the commands succeed: the effects of the pass are exactly the write of
  the hint of \<open>c\<close>, the removal of the hint of \<open>a\<close> and one flush; the managed set
  becomes \<open>{b, c}\<close>; and no file but those of \<open>a\<close> and \<open>c\<close> changes, so \<open>b\<close> is untouched.
  When the new records give no suffix at all the pass returns at its first guard and
  removes nothing.
\<close>

theorem absent_suffixes_removed:
  "UpdateResolverFiles U F m os recs = update_with_suffixes F m os (extractDomainSuffixes U recs)
   \<and> (sfxs \<noteq> [] \<and> (dir_exists os \<or> \<not> mkdir_error F)
        \<and> d \<in> set (managedDomains m) \<and> d \<notin> set sfxs
      \<longrightarrow> d \<notin> set (managedDomains (fst (snd (update_with_suffixes F m os sfxs))))
          \<and> (\<not> rm_error F (filePath m d) \<longrightarrow>
                files (snd (snd (update_with_suffixes F m os sfxs))) (filePath m d) = None
              \<and> Removed (filePath m d)
                  \<in> set (pass_events os (snd (snd (update_with_suffixes F m os sfxs))))))
   \<and> ((managedDomains m = [a, b] \<or> managedDomains m = [b, a])
        \<and> (sfxs = [b, c] \<or> sfxs = [c, b])
        \<and> filePath m a \<noteq> filePath m b \<and> filePath m a \<noteq> filePath m c
        \<and> filePath m b \<noteq> filePath m c
        \<and> dir_exists os
        \<and> files os (filePath m b) = Some (expectedContent m)
        \<and> files os (filePath m c) \<noteq> Some (expectedContent m)
        \<and> \<not> tee_error F (filePath m c) \<and> \<not> rm_error F (filePath m a)
      \<longrightarrow> pass_events os (snd (snd (update_with_suffixes F m os sfxs)))
            = [Wrote (filePath m c) (expectedContent m), Removed (filePath m a), Flushed]
          \<and> set (managedDomains (fst (snd (update_with_suffixes F m os sfxs)))) = {b, c}
          \<and> files (snd (snd (update_with_suffixes F m os sfxs)))
              = (files os)(filePath m c \<mapsto> expectedContent m, filePath m a := None))"
proof -
  have link: "UpdateResolverFiles U F m os recs = update_with_suffixes F m os (extractDomainSuffixes U recs)"
    by (rule UpdateResolverFiles_def)
  have general: "sfxs \<noteq> [] \<and> (dir_exists os \<or> \<not> mkdir_error F)
        \<and> d \<in> set (managedDomains m) \<and> d \<notin> set sfxs
      \<longrightarrow> d \<notin> set (managedDomains (fst (snd (update_with_suffixes F m os sfxs))))
          \<and> (\<not> rm_error F (filePath m d) \<longrightarrow>
                files (snd (snd (update_with_suffixes F m os sfxs))) (filePath m d) = None
              \<and> Removed (filePath m d)
                  \<in> set (pass_events os (snd (snd (update_with_suffixes F m os sfxs)))))"
  proof
    assume "sfxs \<noteq> [] \<and> (dir_exists os \<or> \<not> mkdir_error F)
        \<and> d \<in> set (managedDomains m) \<and> d \<notin> set sfxs"
    then have h: "sfxs \<noteq> []" "dir_exists os \<or> \<not> mkdir_error F"
        "d \<in> set (managedDomains m)" "d \<notin> set sfxs"
      by simp_all
    from update_removes [OF h]
    show "d \<notin> set (managedDomains (fst (snd (update_with_suffixes F m os sfxs))))
          \<and> (\<not> rm_error F (filePath m d) \<longrightarrow>
                files (snd (snd (update_with_suffixes F m os sfxs))) (filePath m d) = None
              \<and> Removed (filePath m d)
                  \<in> set (pass_events os (snd (snd (update_with_suffixes F m os sfxs)))))" .
  qed
  have example: "(managedDomains m = [a, b] \<or> managedDomains m = [b, a])
        \<and> (sfxs = [b, c] \<or> sfxs = [c, b])
        \<and> filePath m a \<noteq> filePath m b \<and> filePath m a \<noteq> filePath m c
        \<and> filePath m b \<noteq> filePath m c
        \<and> dir_exists os
        \<and> files os (filePath m b) = Some (expectedContent m)
        \<and> files os (filePath m c) \<noteq> Some (expectedContent m)
        \<and> \<not> tee_error F (filePath m c) \<and> \<not> rm_error F (filePath m a)
      \<longrightarrow> pass_events os (snd (snd (update_with_suffixes F m os sfxs)))
            = [Wrote (filePath m c) (expectedContent m), Removed (filePath m a), Flushed]
          \<and> set (managedDomains (fst (snd (update_with_suffixes F m os sfxs)))) = {b, c}
          \<and> files (snd (snd (update_with_suffixes F m os sfxs)))
              = (files os)(filePath m c \<mapsto> expectedContent m, filePath m a := None)"
  proof
    assume "(managedDomains m = [a, b] \<or> managedDomains m = [b, a])
        \<and> (sfxs = [b, c] \<or> sfxs = [c, b])
        \<and> filePath m a \<noteq> filePath m b \<and> filePath m a \<noteq> filePath m c
        \<and> filePath m b \<noteq> filePath m c
        \<and> dir_exists os
        \<and> files os (filePath m b) = Some (expectedContent m)
        \<and> files os (filePath m c) \<noteq> Some (expectedContent m)
        \<and> \<not> tee_error F (filePath m c) \<and> \<not> rm_error F (filePath m a)"
    then have h: "managedDomains m = [a, b] \<or> managedDomains m = [b, a]"
      "sfxs = [b, c] \<or> sfxs = [c, b]"
      "filePath m a \<noteq> filePath m b" "filePath m a \<noteq> filePath m c" "filePath m b \<noteq> filePath m c"
      "dir_exists os" "files os (filePath m b) = Some (expectedContent m)"
      "files os (filePath m c) \<noteq> Some (expectedContent m)"
      "\<not> tee_error F (filePath m c)" "\<not> rm_error F (filePath m a)"
      by blast+
    from update_example [OF h]
    show "pass_events os (snd (snd (update_with_suffixes F m os sfxs)))
            = [Wrote (filePath m c) (expectedContent m), Removed (filePath m a), Flushed]
          \<and> set (managedDomains (fst (snd (update_with_suffixes F m os sfxs)))) = {b, c}
          \<and> files (snd (snd (update_with_suffixes F m os sfxs)))
              = (files os)(filePath m c \<mapsto> expectedContent m, filePath m a := None)" .
  qed
  from link general example show ?thesis
    by (intro conjI)
qed

theorem absent_suffixes_removed_witness:
  "extractDomainSuffixes ascii_lib (records_for [''host.b'', ''host.c'']) = [''b'', ''c'']
   \<and> managedDomains (managing [''a'', ''b'']) = [''a'', ''b'']
   \<and> filePath (managing [''a'', ''b'']) ''a'' = ''/etc/resolver/a''
   \<and> filePath (managing [''a'', ''b'']) ''b'' = ''/etc/resolver/b''
   \<and> filePath (managing [''a'', ''b'']) ''c'' = ''/etc/resolver/c''
   \<and> expectedContent (managing [''a'', ''b'']) = hint
   \<and> pass_events (disk [(''/etc/resolver/a'', hint), (''/etc/resolver/b'', hint)])
        (snd (snd (UpdateResolverFiles ascii_lib no_faults (managing [''a'', ''b''])
           (disk [(''/etc/resolver/a'', hint), (''/etc/resolver/b'', hint)])
           (records_for [''host.b'', ''host.c'']))))
       = [Wrote ''/etc/resolver/c'' hint, Removed ''/etc/resolver/a'', Flushed]
   \<and> set (managedDomains (fst (snd (UpdateResolverFiles ascii_lib no_faults (managing [''a'', ''b''])
           (disk [(''/etc/resolver/a'', hint), (''/etc/resolver/b'', hint)])
           (records_for [''host.b'', ''host.c''])))))
       = {''b'', ''c''}
   \<and> files (snd (snd (UpdateResolverFiles ascii_lib no_faults (managing [''a'', ''b''])
           (disk [(''/etc/resolver/a'', hint), (''/etc/resolver/b'', hint)])
           (records_for [''host.b'', ''host.c''])))) ''/etc/resolver/a'' = None
   \<and> files (snd (snd (UpdateResolverFiles ascii_lib no_faults (managing [''a'', ''b''])
           (disk [(''/etc/resolver/a'', hint), (''/etc/resolver/b'', hint)])
           (records_for [''host.b'', ''host.c''])))) ''/etc/resolver/b'' = Some hint
   \<and> ''a'' \<notin> set (managedDomains (fst (snd (UpdateResolverFiles ascii_lib no_faults (managing [''a'', ''b''])
           (disk [(''/etc/resolver/a'', hint), (''/etc/resolver/b'', hint)])
           (records_for [''host.b'', ''host.c''])))))"
proof -
  let ?m = "managing [''a'', ''b'']"
  let ?os = "disk [(''/etc/resolver/a'', hint), (''/etc/resolver/b'', hint)]"
  let ?recs = "records_for [''host.b'', ''host.c'']"
  have sf: "extractDomainSuffixes ascii_lib ?recs = [''b'', ''c'']"
    by code_simp
  have md: "managedDomains ?m = [''a'', ''b'']"
    by (simp add: managing_def)
  have pa: "filePath ?m ''a'' = ''/etc/resolver/a''"
    and pb: "filePath ?m ''b'' = ''/etc/resolver/b''"
    and pc: "filePath ?m ''c'' = ''/etc/resolver/c''"
    by code_simp+
  have ex: "expectedContent ?m = hint"
    by code_simp
  have de: "dir_exists ?os"
    by (simp add: disk_def)
  have fb: "files ?os ''/etc/resolver/b'' = Some hint"
    and fc: "files ?os ''/etc/resolver/c'' \<noteq> Some hint"
    by (simp_all add: disk_def)
  have nf: "\<not> tee_error no_faults ''/etc/resolver/c''" "\<not> rm_error no_faults ''/etc/resolver/a''"
    "\<not> mkdir_error no_faults"
    by (simp_all add: no_faults_def)
  have up: "UpdateResolverFiles ascii_lib no_faults ?m ?os ?recs
              = update_with_suffixes no_faults ?m ?os [''b'', ''c'']"
    by (simp add: UpdateResolverFiles_def sf)
  note inst = absent_suffixes_removed [of ascii_lib no_faults ?m ?os ?recs "[''b'', ''c'']" "''a''"
      "''a''" "''b''" "''c''"]
  have ex1: "pass_events ?os (snd (snd (update_with_suffixes no_faults ?m ?os [''b'', ''c''])))
            = [Wrote ''/etc/resolver/c'' hint, Removed ''/etc/resolver/a'', Flushed]
          \<and> set (managedDomains (fst (snd (update_with_suffixes no_faults ?m ?os [''b'', ''c'']))))
            = {''b'', ''c''}
          \<and> files (snd (snd (update_with_suffixes no_faults ?m ?os [''b'', ''c''])))
              = (files ?os)(''/etc/resolver/c'' \<mapsto> hint, ''/etc/resolver/a'' := None)"
    using inst md pa pb pc ex de fb fc nf by simp
  have ex2: "''a'' \<notin> set (managedDomains (fst (snd (update_with_suffixes no_faults ?m ?os [''b'', ''c'']))))"
    using inst md de by simp
  from ex1 have f: "files (snd (snd (update_with_suffixes no_faults ?m ?os [''b'', ''c'']))) ''/etc/resolver/a'' = None"
    "files (snd (snd (update_with_suffixes no_faults ?m ?os [''b'', ''c'']))) ''/etc/resolver/b'' = Some hint"
    using fb by simp_all
  from sf md pa pb pc ex ex1 ex2 f show ?thesis
    unfolding up by (intro conjI) simp_all
qed

theorem empty_suffix_set_counterexample:
  "extractDomainSuffixes ascii_lib (records_for [''^.*$'']) = []
   \<and> managedDomains (fst (snd (UpdateResolverFiles ascii_lib no_faults (managing [''myhost''])
        (disk [(''/etc/resolver/myhost'', hint)]) (records_for [''^.*$''])))) = [''myhost'']
   \<and> files (snd (snd (UpdateResolverFiles ascii_lib no_faults (managing [''myhost''])
        (disk [(''/etc/resolver/myhost'', hint)]) (records_for [''^.*$''])))) ''/etc/resolver/myhost''
       = Some hint
   \<and> events (snd (snd (UpdateResolverFiles ascii_lib no_faults (managing [''myhost''])
        (disk [(''/etc/resolver/myhost'', hint)]) (records_for [''^.*$''])))) = []"
  by code_simp

subsection \<open>A second pass with the same records\<close>

text \<open>
  Claim C8, as amended. Provided that different suffixes, among those managed before
  and the new ones, name different hint files, and that the same commands fail in both
  calls: a second pass with the same suffixes, in any order, on the state the first
  pass left, leaves the operating system exactly as the first pass left it (no further
  write, removal, directory made or flush, the same files) and the same managed set.
  The proviso is needed: \<^verbatim>\<open>filepath.Join\<close> cleans the path, so the suffixes \<^verbatim>\<open>a/\<close> and
  \<^verbatim>\<open>a\<close> name one file; the pass that replaces the first by the second removes the file
  it has just found correct, and the next pass with the same records writes it again.
\<close>

theorem update_idempotent:
  assumes "inj_on (filePath m) (set (managedDomains m) \<union> set sfxs)"
    and "set sfxs' = set sfxs"
  shows "UpdateResolverFiles U F m os recs = update_with_suffixes F m os (extractDomainSuffixes U recs)
       \<and> snd (snd (update_with_suffixes F (fst (snd (update_with_suffixes F m os sfxs)))
                     (snd (snd (update_with_suffixes F m os sfxs))) sfxs'))
           = snd (snd (update_with_suffixes F m os sfxs))
       \<and> set (managedDomains (fst (snd (update_with_suffixes F (fst (snd (update_with_suffixes F m os sfxs)))
                     (snd (snd (update_with_suffixes F m os sfxs))) sfxs'))))
           = set (managedDomains (fst (snd (update_with_suffixes F m os sfxs))))"
proof -
  have link: "UpdateResolverFiles U F m os recs = update_with_suffixes F m os (extractDomainSuffixes U recs)"
    by (rule UpdateResolverFiles_def)
  from link update_twice [OF assms, of F os] show ?thesis
    by (intro conjI) simp_all
qed

theorem update_idempotent_witness:
  "inj_on (filePath (managing [''old''])) (set (managedDomains (managing [''old''])) \<union> set [''myhost'', ''test''])
   \<and> set [''test'', ''myhost''] = set [''myhost'', ''test'']
   \<and> extractDomainSuffixes ascii_lib (records_for [''myhost'', ''api.test'']) = [''myhost'', ''test'']
   \<and> events (snd (snd (UpdateResolverFiles ascii_lib no_faults (managing [''old''])
        (disk [(''/etc/resolver/old'', hint)]) (records_for [''myhost'', ''api.test'']))))
       = [Wrote ''/etc/resolver/myhost'' hint, Wrote ''/etc/resolver/test'' hint,
          Removed ''/etc/resolver/old'', Flushed]
   \<and> snd (snd (update_with_suffixes no_faults
        (fst (snd (UpdateResolverFiles ascii_lib no_faults (managing [''old''])
           (disk [(''/etc/resolver/old'', hint)]) (records_for [''myhost'', ''api.test'']))))
        (snd (snd (UpdateResolverFiles ascii_lib no_faults (managing [''old''])
           (disk [(''/etc/resolver/old'', hint)]) (records_for [''myhost'', ''api.test'']))))
        [''test'', ''myhost'']))
       = snd (snd (UpdateResolverFiles ascii_lib no_faults (managing [''old''])
           (disk [(''/etc/resolver/old'', hint)]) (records_for [''myhost'', ''api.test''])))
   \<and> set (managedDomains (fst (snd (update_with_suffixes no_faults
        (fst (snd (UpdateResolverFiles ascii_lib no_faults (managing [''old''])
           (disk [(''/etc/resolver/old'', hint)]) (records_for [''myhost'', ''api.test'']))))
        (snd (snd (UpdateResolverFiles ascii_lib no_faults (managing [''old''])
           (disk [(''/etc/resolver/old'', hint)]) (records_for [''myhost'', ''api.test'']))))
        [''test'', ''myhost'']))))
       = {''myhost'', ''test''}"
proof -
  let ?m = "managing [''old'']"
  let ?os = "disk [(''/etc/resolver/old'', hint)]"
  let ?recs = "records_for [''myhost'', ''api.test'']"
  have pa: "filePath ?m ''old'' = ''/etc/resolver/old''"
    and pb: "filePath ?m ''myhost'' = ''/etc/resolver/myhost''"
    and pc: "filePath ?m ''test'' = ''/etc/resolver/test''"
    by code_simp+
  have md: "managedDomains ?m = [''old'']"
    by (simp add: managing_def)
  have h1: "inj_on (filePath ?m) (set (managedDomains ?m) \<union> set [''myhost'', ''test''])"
    by (simp add: md pa pb pc)
  have h2: "set [''test'', ''myhost''] = set [''myhost'', ''test'']"
    by auto
  have sf: "extractDomainSuffixes ascii_lib ?recs = [''myhost'', ''test'']"
    by code_simp
  have run: "events (snd (snd (UpdateResolverFiles ascii_lib no_faults ?m ?os ?recs)))
       = [Wrote ''/etc/resolver/myhost'' hint, Wrote ''/etc/resolver/test'' hint,
          Removed ''/etc/resolver/old'', Flushed]"
    by code_simp
  have first: "set (managedDomains (fst (snd (UpdateResolverFiles ascii_lib no_faults ?m ?os ?recs))))
       = {''myhost'', ''test''}"
    by code_simp
  have up: "update_with_suffixes no_faults ?m ?os [''myhost'', ''test'']
              = UpdateResolverFiles ascii_lib no_faults ?m ?os ?recs"
    by (simp add: UpdateResolverFiles_def sf)
  note inst = update_idempotent [OF h1 h2, where U = ascii_lib and F = no_faults and os = ?os
      and recs = ?recs]
  note same_os = inst [THEN conjunct2, THEN conjunct1, unfolded up]
  note same_set = inst [THEN conjunct2, THEN conjunct2, unfolded up]
  from same_set first
  have second: "set (managedDomains (fst (snd (update_with_suffixes no_faults
        (fst (snd (UpdateResolverFiles ascii_lib no_faults ?m ?os ?recs)))
        (snd (snd (UpdateResolverFiles ascii_lib no_faults ?m ?os ?recs)))
        [''test'', ''myhost'']))))
       = {''myhost'', ''test''}"
    by (rule trans)
  from h1 h2 sf run same_os second show ?thesis
    by (intro conjI)
qed

theorem update_not_idempotent_counterexample:
  "filePath (NewManager ''127.1.2.3'') ''a/'' = ''/etc/resolver/a''
   \<and> filePath (NewManager ''127.1.2.3'') ''a'' = ''/etc/resolver/a''
   \<and> managedDomains (fst (snd call_slash)) = [''a/'']
   \<and> pass_events (snd (snd call_slash)) (snd (snd call_first)) = [Removed ''/etc/resolver/a'', Flushed]
   \<and> managedDomains (fst (snd call_first)) = [''a'']
   \<and> pass_events (snd (snd call_first)) (snd (snd call_second)) = [Wrote ''/etc/resolver/a'' hint]"
  by code_simp

end
